theory Spec2Isabelle
  imports Complex_Main
begin

section \<open>The falling-block engine of app.js\<close>

text \<open>
  The engine of \<^verbatim>\<open>app.js\<close> keeps its state in module-level variables and mutates them
  from \<^verbatim>\<open>movePiece\<close>, \<^verbatim>\<open>rotatePiece\<close>, \<^verbatim>\<open>hardDrop\<close>, \<^verbatim>\<open>lockPiece\<close>,
  \<^verbatim>\<open>clearLines\<close> and \<^verbatim>\<open>spawnPiece\<close>. The model bundles those variables into one record
  and passes it through every function. Drawing (\<^verbatim>\<open>render\<close>, \<^verbatim>\<open>updateUI\<close>, the canvas
  calls of \<^verbatim>\<open>gameOver\<close>) reads the state without changing it and is left out; the two
  DOM writes of \<^verbatim>\<open>unlockTreasure\<close> are kept as fields, since they are the exposed code.

  A function that can fail to hand back a state of this model returns an option. \<open>None\<close>
  stands for: an uncaught TypeError (a property read on \<^verbatim>\<open>undefined\<close>), a loop that
  never ends, or a value the data model does not hold (a \<^verbatim>\<open>NaN\<close> score, an
  \<^verbatim>\<open>undefined\<close> matrix entry, a write outside a row). Each such branch is marked where it
  is written. JavaScript numbers are modelled as unbounded integers.
\<close>

subsection \<open>Constants and data\<close>

definition GRID_WIDTH :: int where
  "GRID_WIDTH = 10"

definition GRID_HEIGHT :: int where
  "GRID_HEIGHT = 20"

definition ENERGY_THRESHOLD :: int where
  "ENERGY_THRESHOLD = 5000"

text \<open>A shape is a matrix of numbers \<open>0\<close>/\<open>1\<close>; an entry is occupied when it is truthy.\<close>

type_synonym shape = "nat list list"

text \<open>
  \<^verbatim>\<open>SHAPES\<close> and \<^verbatim>\<open>COLORS\<close> are objects with string keys; \<^verbatim>\<open>Object.keys\<close> lists the
  keys in insertion order, so both are association lists.
\<close>

definition SHAPES :: "(string \<times> shape) list" where
  "SHAPES =
    [(''I'', [[1, 1, 1, 1]]),
     (''O'', [[1, 1], [1, 1]]),
     (''T'', [[0, 1, 0], [1, 1, 1]]),
     (''S'', [[0, 1, 1], [1, 1, 0]]),
     (''Z'', [[1, 1, 0], [0, 1, 1]]),
     (''J'', [[1, 0, 0], [1, 1, 1]]),
     (''L'', [[0, 0, 1], [1, 1, 1]])]"

definition COLORS :: "(string \<times> string) list" where
  "COLORS =
    [(''I'', ''#1FB8CD''),
     (''O'', ''#FFC185''),
     (''T'', ''#B4413C''),
     (''S'', ''#5D878F''),
     (''Z'', ''#DB4545''),
     (''J'', ''#D2BA4C''),
     (''L'', ''#964325'')]"

text \<open>A grid cell holds the number \<open>0\<close> or the colour string of the piece locked there.\<close>

datatype cell = Zero | Color string

type_synonym grid = "cell list list"

text \<open>JavaScript truthiness of a cell: \<open>0\<close> and the empty string are falsy.\<close>

fun truthy :: "cell \<Rightarrow> bool" where
  "truthy Zero = False"
| "truthy (Color c) = (c \<noteq> [])"

record piece =
  shape :: shape
  color :: string
  x :: int
  y :: int

text \<open>The value a call of \<^verbatim>\<open>movePiece\<close> returns: nothing, \<^verbatim>\<open>true\<close> or \<^verbatim>\<open>false\<close>.\<close>

datatype ret = Undefined | Ret bool

fun truthy_ret :: "ret \<Rightarrow> bool" where
  "truthy_ret Undefined = False"
| "truthy_ret (Ret b) = b"

text \<open>
  The module-level variables. \<open>gameLoop\<close> tells whether an animation frame is requested.
  \<open>treasureCode\<close> is the text content of the element \<^verbatim>\<open>treasureCode\<close> and
  \<open>treasureCardHidden\<close> the \<^verbatim>\<open>hidden\<close> class of \<^verbatim>\<open>treasureCard\<close>.
  \<open>rand\<close> lists the numbers the calls of \<^verbatim>\<open>Math.random()\<close> return, in order, and
  \<open>randCalls\<close> counts the calls made so far.
\<close>

record state =
  grid :: grid
  currentPiece :: "piece option"
  gameLoop :: bool
  score :: int
  level :: int
  energy :: int
  isPaused :: bool
  gameStarted :: bool
  dropInterval :: int
  lastDropTime :: int
  treasureUnlocked :: bool
  treasureCode :: string
  treasureCardHidden :: bool
  rand :: "nat \<Rightarrow> rat"
  randCalls :: nat

subsection \<open>resetGrid\<close>

definition emptyRow :: "cell list" where
  "emptyRow = replicate (nat GRID_WIDTH) Zero"

definition resetGrid :: "state \<Rightarrow> state" where
  "resetGrid s = s\<lparr>grid := replicate (nat GRID_HEIGHT) emptyRow\<rparr>"

subsection \<open>checkCollision\<close>

text \<open>
  The truthiness of \<^verbatim>\<open>grid[newY][newX]\<close> for indices that are not negative: a row index
  past the end reads \<^verbatim>\<open>undefined\<close> and the column read on it throws (\<open>None\<close>); a column
  index past the end of a row reads \<^verbatim>\<open>undefined\<close>, which is falsy.
\<close>

definition grid_truthy :: "grid \<Rightarrow> nat \<Rightarrow> nat \<Rightarrow> bool option" where
  "grid_truthy g r c =
     (if r < length g then Some (c < length (g ! r) \<and> truthy (g ! r ! c)) else None)"

text \<open>
  The body of the inner loop for one occupied entry: \<open>Some True\<close> is the early
  \<^verbatim>\<open>return true\<close>, \<open>Some False\<close> lets the loop go on.
\<close>

definition collision_cell :: "grid \<Rightarrow> int \<Rightarrow> int \<Rightarrow> bool option" where
  "collision_cell g newX newY =
     (if newX < 0 \<or> newX \<ge> GRID_WIDTH \<or> newY \<ge> GRID_HEIGHT then Some True
      else if newY \<ge> 0 then grid_truthy g (nat newY) (nat newX)
      else Some False)"

text \<open>The inner loop over the entries of one row, from column \<open>col\<close> on.\<close>

fun collision_cols :: "grid \<Rightarrow> int \<Rightarrow> int \<Rightarrow> nat list \<Rightarrow> nat \<Rightarrow> bool option" where
  "collision_cols g x0 newY [] col = Some False"
| "collision_cols g x0 newY (v # vs) col =
     (if v \<noteq> 0 then
        (case collision_cell g (x0 + int col) newY of
           None \<Rightarrow> None
         | Some True \<Rightarrow> Some True
         | Some False \<Rightarrow> collision_cols g x0 newY vs (Suc col))
      else collision_cols g x0 newY vs (Suc col))"

text \<open>The outer loop over the rows of the shape, from row \<open>row\<close> on.\<close>

fun collision_rows :: "grid \<Rightarrow> int \<Rightarrow> int \<Rightarrow> shape \<Rightarrow> nat \<Rightarrow> bool option" where
  "collision_rows g x0 y0 [] row = Some False"
| "collision_rows g x0 y0 (r # rs) row =
     (case collision_cols g x0 (y0 + int row) r 0 of
        None \<Rightarrow> None
      | Some True \<Rightarrow> Some True
      | Some False \<Rightarrow> collision_rows g x0 y0 rs (Suc row))"

definition checkCollision :: "grid \<Rightarrow> int \<Rightarrow> int \<Rightarrow> shape \<Rightarrow> bool option" where
  "checkCollision g x0 y0 sh = collision_rows g x0 y0 sh 0"

subsection \<open>Math.random\<close>

text \<open>One call of \<^verbatim>\<open>Math.random()\<close>: the next number of the supply.\<close>

definition Math_random :: "state \<Rightarrow> rat \<times> state" where
  "Math_random s = (rand s (randCalls s), s\<lparr>randCalls := Suc (randCalls s)\<rparr>)"

text \<open>\<^verbatim>\<open>Math.floor(r * n)\<close> for a length \<open>n\<close>.\<close>

definition random_index :: "rat \<Rightarrow> nat \<Rightarrow> int" where
  "random_index r n = \<lfloor>r * of_nat n\<rfloor>"

subsection \<open>gameOver, spawnPiece\<close>

definition gameOver :: "state \<Rightarrow> state" where
  "gameOver s = s\<lparr>gameStarted := False, gameLoop := False\<rparr>"

text \<open>
  An index outside \<^verbatim>\<open>shapeKeys\<close> reads \<^verbatim>\<open>undefined\<close>, so does \<^verbatim>\<open>SHAPES[undefined]\<close>,
  and \<^verbatim>\<open>checkCollision\<close> throws on the length of that shape (\<open>None\<close>).
\<close>

definition spawnPiece :: "state \<Rightarrow> state option" where
  "spawnPiece s =
     (let shapeKeys = map fst SHAPES;
          (r, s1) = Math_random s;
          i = random_index r (length shapeKeys)
      in if 0 \<le> i \<and> nat i < length shapeKeys then
           (let randomShape = shapeKeys ! nat i in
            case (map_of SHAPES randomShape, map_of COLORS randomShape) of
              (Some sh, Some c) \<Rightarrow>
                (let p = \<lparr>shape = sh, color = c, x = GRID_WIDTH div 2 - 1, y = 0\<rparr>;
                     s2 = s1\<lparr>currentPiece := Some p\<rparr>
                 in case checkCollision (grid s2) (x p) (y p) (shape p) of
                      None \<Rightarrow> None
                    | Some True \<Rightarrow> Some (gameOver s2)
                    | Some False \<Rightarrow> Some s2)
            | _ \<Rightarrow> None)
         else None)"

subsection \<open>generateTreasureCode, unlockTreasure\<close>

definition chars :: string where
  "chars = ''ABCDEFGHIJKLMNOPQRSTUVWXYZ0123456789''"

text \<open>\<^verbatim>\<open>charAt\<close> gives the empty string for an index outside the string.\<close>

definition charAt :: "string \<Rightarrow> int \<Rightarrow> string" where
  "charAt str i = (if 0 \<le> i \<and> nat i < length str then [str ! nat i] else [])"

text \<open>The loop of \<^verbatim>\<open>generateTreasureCode\<close> with \<open>n\<close> iterations left.\<close>

fun generateTreasureCode_loop :: "nat \<Rightarrow> string \<Rightarrow> state \<Rightarrow> string \<times> state" where
  "generateTreasureCode_loop 0 code s = (code, s)"
| "generateTreasureCode_loop (Suc n) code s =
     (let (r, s1) = Math_random s
      in generateTreasureCode_loop n (code @ charAt chars (random_index r (length chars))) s1)"

definition generateTreasureCode :: "state \<Rightarrow> string \<times> state" where
  "generateTreasureCode s = generateTreasureCode_loop 8 [] s"

definition unlockTreasure :: "state \<Rightarrow> state" where
  "unlockTreasure s =
     (let (code, s1) = generateTreasureCode (s\<lparr>treasureUnlocked := True\<rparr>)
      in s1\<lparr>treasureCode := code, treasureCardHidden := False\<rparr>)"

subsection \<open>clearLines\<close>

text \<open>\<^verbatim>\<open>grid[row].every(cell => cell !== 0)\<close>\<close>

definition row_full :: "cell list \<Rightarrow> bool" where
  "row_full r = list_all (\<lambda>c. c \<noteq> Zero) r"

text \<open>
  The loop of \<^verbatim>\<open>clearLines\<close>. The second argument is \<^verbatim>\<open>row + 1\<close>, so the loop ends
  at \<open>0\<close>. After a removal the source increments \<^verbatim>\<open>row\<close> and the loop header decrements
  it, so the same index is examined again. A row index past the end of the grid reads
  \<^verbatim>\<open>undefined\<close>, and \<^verbatim>\<open>every\<close> on it throws (\<open>None\<close>).
\<close>

function clearLines_loop :: "grid \<Rightarrow> nat \<Rightarrow> nat \<Rightarrow> (grid \<times> nat) option" where
  "clearLines_loop g 0 linesCleared = Some (g, linesCleared)"
| "clearLines_loop g (Suc row) linesCleared =
     (if row < length g then
        (if row_full (g ! row)
         then clearLines_loop (emptyRow # (take row g @ drop (Suc row) g)) (Suc row)
                (Suc linesCleared)
         else clearLines_loop g row linesCleared)
      else None)"
  by pat_completeness auto
termination
proof (relation "measure (\<lambda>(g, k, n). length (filter row_full (take k g)) + k)", goal_cases)
  case 1
  show ?case by simp
next
  case (2 g row linesCleared)
  have e: "\<not> row_full emptyRow"
    by (simp add: row_full_def emptyRow_def GRID_WIDTH_def list_all_iff)
  have t: "take (Suc row) g = take row g @ [g ! row]"
    using 2 by (simp add: take_Suc_conv_app_nth)
  show ?case using 2 e by (simp add: t)
next
  case (3 g row linesCleared)
  have t: "take (Suc row) g = take row g @ [g ! row]"
    using 3 by (simp add: take_Suc_conv_app_nth)
  show ?case by (simp add: t)
qed

text \<open>
  The table \<^verbatim>\<open>[0, 100, 300, 500, 800][linesCleared]\<close>: past its end the read is
  \<^verbatim>\<open>undefined\<close> and the product with the level is \<^verbatim>\<open>NaN\<close> (\<open>None\<close>).
\<close>

definition basePoints :: "nat \<Rightarrow> int option" where
  "basePoints n = (if n < 5 then Some ([0, 100, 300, 500, 800] ! n) else None)"

definition clearLines :: "state \<Rightarrow> state option" where
  "clearLines s =
     (case clearLines_loop (grid s) (nat GRID_HEIGHT) 0 of
        None \<Rightarrow> None
      | Some (g, linesCleared) \<Rightarrow>
          (let s1 = s\<lparr>grid := g\<rparr>
           in if linesCleared > 0 then
                (case basePoints linesCleared of
                   None \<Rightarrow> None
                 | Some b \<Rightarrow>
                     (let points = b * level s1;
                          s2 = s1\<lparr>score := score s1 + points, energy := energy s1 + points\<rparr>;
                          s3 = s2\<lparr>level := score s2 div 1000 + 1\<rparr>;
                          s4 = s3\<lparr>dropInterval := max 100 (1000 - (level s3 - 1) * 100)\<rparr>
                      in if energy s4 \<ge> ENERGY_THRESHOLD \<and> \<not> treasureUnlocked s4
                         then Some (unlockTreasure s4)
                         else Some s4))
              else Some s1))"

subsection \<open>lockPiece\<close>

text \<open>
  The assignment \<^verbatim>\<open>grid[y][x] = color\<close> for a row index that is not negative. A row
  index past the end throws. A column index outside the row would add a property to the
  row or grow it with holes; the model has no such rows (\<open>None\<close>).
\<close>

definition grid_set :: "grid \<Rightarrow> int \<Rightarrow> int \<Rightarrow> cell \<Rightarrow> grid option" where
  "grid_set g gy gx v =
     (if nat gy < length g then
        (if 0 \<le> gx \<and> nat gx < length (g ! nat gy)
         then Some (g[nat gy := (g ! nat gy)[nat gx := v]])
         else None)
      else None)"

fun lock_cols :: "grid \<Rightarrow> piece \<Rightarrow> nat \<Rightarrow> nat list \<Rightarrow> nat \<Rightarrow> grid option" where
  "lock_cols g p row [] col = Some g"
| "lock_cols g p row (v # vs) col =
     (if v \<noteq> 0 then
        (if y p + int row \<ge> 0 then
           (case grid_set g (y p + int row) (x p + int col) (Color (color p)) of
              None \<Rightarrow> None
            | Some g1 \<Rightarrow> lock_cols g1 p row vs (Suc col))
         else lock_cols g p row vs (Suc col))
      else lock_cols g p row vs (Suc col))"

fun lock_rows :: "grid \<Rightarrow> piece \<Rightarrow> shape \<Rightarrow> nat \<Rightarrow> grid option" where
  "lock_rows g p [] row = Some g"
| "lock_rows g p (r # rs) row =
     (case lock_cols g p row r 0 of
        None \<Rightarrow> None
      | Some g1 \<Rightarrow> lock_rows g1 p rs (Suc row))"

definition lockPiece :: "state \<Rightarrow> state option" where
  "lockPiece s =
     (case currentPiece s of
        None \<Rightarrow> Some s
      | Some p \<Rightarrow>
          (case lock_rows (grid s) p (shape p) 0 of
             None \<Rightarrow> None
           | Some g \<Rightarrow>
               (case clearLines (s\<lparr>grid := g\<rparr>) of
                  None \<Rightarrow> None
                | Some s1 \<Rightarrow> spawnPiece s1)))"

subsection \<open>movePiece, rotatePiece, hardDrop\<close>

definition movePiece :: "state \<Rightarrow> int \<Rightarrow> int \<Rightarrow> (ret \<times> state) option" where
  "movePiece s dx dy =
     (case currentPiece s of
        None \<Rightarrow> Some (Undefined, s)
      | Some p \<Rightarrow>
          (let newX = x p + dx; newY = y p + dy
           in case checkCollision (grid s) newX newY (shape p) of
                None \<Rightarrow> None
              | Some False \<Rightarrow>
                  (let s1 = s\<lparr>currentPiece := Some (p\<lparr>x := newX, y := newY\<rparr>)\<rparr>;
                       s2 = (if dy > 0
                             then s1\<lparr>score := score s1 + 1, energy := energy s1 + 1\<rparr>
                             else s1)
                   in Some (Ret True, s2))
              | Some True \<Rightarrow>
                  (if dy > 0 then
                     (case lockPiece s of
                        None \<Rightarrow> None
                      | Some s1 \<Rightarrow> Some (Ret False, s1))
                   else Some (Ret False, s))))"

text \<open>
  \<^verbatim>\<open>shape[0].map((_, i) => shape.map(row => row[i]).reverse())\<close>: an empty shape has
  no row \<open>0\<close> and the call throws; a row shorter than row \<open>0\<close> would give an
  \<^verbatim>\<open>undefined\<close> entry (both \<open>None\<close>).
\<close>

definition rotated :: "shape \<Rightarrow> shape option" where
  "rotated sh =
     (case sh of
        [] \<Rightarrow> None
      | r0 # _ \<Rightarrow>
          (if list_all (\<lambda>row. length r0 \<le> length row) sh
           then Some (map (\<lambda>i. rev (map (\<lambda>row. row ! i) sh)) [0..<length r0])
           else None))"

definition rotatePiece :: "state \<Rightarrow> state option" where
  "rotatePiece s =
     (case currentPiece s of
        None \<Rightarrow> Some s
      | Some p \<Rightarrow>
          (case rotated (shape p) of
             None \<Rightarrow> None
           | Some rot \<Rightarrow>
               (case checkCollision (grid s) (x p) (y p) rot of
                  None \<Rightarrow> None
                | Some False \<Rightarrow> Some (s\<lparr>currentPiece := Some (p\<lparr>shape := rot\<rparr>)\<rparr>)
                | Some True \<Rightarrow> Some s)))"

text \<open>
  The loop \<^verbatim>\<open>while (movePiece(0, 1)) dropDistance++\<close>. It runs for ever on a shape with
  no occupied entry, so not returning is the value \<open>None\<close>.
\<close>

partial_function (option) hardDrop_loop :: "state \<Rightarrow> int \<Rightarrow> (state \<times> int) option" where
  "hardDrop_loop s dropDistance =
     (case movePiece s 0 1 of
        None \<Rightarrow> None
      | Some (r, s1) \<Rightarrow>
          (if truthy_ret r then hardDrop_loop s1 (dropDistance + 1)
           else Some (s1, dropDistance)))"

declare hardDrop_loop.simps [code]

definition hardDrop :: "state \<Rightarrow> state option" where
  "hardDrop s =
     (case currentPiece s of
        None \<Rightarrow> Some s
      | Some p \<Rightarrow>
          (case hardDrop_loop s 0 of
             None \<Rightarrow> None
           | Some (s1, dropDistance) \<Rightarrow>
               Some (s1\<lparr>score := score s1 + dropDistance * 2,
                        energy := energy s1 + dropDistance * 2\<rparr>)))"

subsection \<open>resetGame, startGame, update and the input handlers\<close>

definition resetGame :: "state \<Rightarrow> state" where
  "resetGame s =
     (resetGrid s)\<lparr>score := 0, level := 1, energy := 0, treasureUnlocked := False,
        dropInterval := 1000, currentPiece := None, treasureCardHidden := True\<rparr>"

definition startGame :: "state \<Rightarrow> state option" where
  "startGame s =
     (let s1 = (if gameStarted s \<and> \<not> isPaused s then resetGame s else s);
          s2 = s1\<lparr>gameStarted := True, isPaused := False\<rparr>
      in case (if currentPiece s2 = None then spawnPiece s2 else Some s2) of
           None \<Rightarrow> None
         | Some s3 \<Rightarrow> Some (if \<not> gameLoop s3 then s3\<lparr>gameLoop := True\<rparr> else s3))"

text \<open>The frame callback \<^verbatim>\<open>update(timestamp)\<close>, the tick of the engine.\<close>

definition update :: "state \<Rightarrow> int \<Rightarrow> state option" where
  "update s timestamp =
     (if \<not> gameStarted s \<or> isPaused s then Some s
      else
        (let elapsed = timestamp - lastDropTime s
         in case (if elapsed > dropInterval s
                  then map_option (\<lambda>(r, s1). s1\<lparr>lastDropTime := timestamp\<rparr>) (movePiece s 0 1)
                  else Some s) of
              None \<Rightarrow> None
            | Some s2 \<Rightarrow> Some (s2\<lparr>gameLoop := True\<rparr>)))"

text \<open>The \<^verbatim>\<open>keydown\<close> listener of \<^verbatim>\<open>setupKeyboardControls\<close>.\<close>

definition keydown :: "state \<Rightarrow> string \<Rightarrow> state option" where
  "keydown s key =
     (if \<not> gameStarted s \<or> isPaused s then Some s
      else if key = ''ArrowLeft'' then map_option snd (movePiece s (- 1) 0)
      else if key = ''ArrowRight'' then map_option snd (movePiece s 1 0)
      else if key = ''ArrowDown'' then map_option snd (movePiece s 0 1)
      else if key = ''ArrowUp'' then rotatePiece s
      else if key = '' '' then hardDrop s
      else Some s)"

text \<open>The \<^verbatim>\<open>click\<close> listeners of \<^verbatim>\<open>setupButtonControls\<close> for the four control buttons.\<close>

definition leftBtn_click :: "state \<Rightarrow> state option" where
  "leftBtn_click s = map_option snd (movePiece s (- 1) 0)"

definition rightBtn_click :: "state \<Rightarrow> state option" where
  "rightBtn_click s = map_option snd (movePiece s 1 0)"

definition rotateBtn_click :: "state \<Rightarrow> state option" where
  "rotateBtn_click s = rotatePiece s"

definition downBtn_click :: "state \<Rightarrow> state option" where
  "downBtn_click s = hardDrop s"

subsection \<open>Well-formed states\<close>

text \<open>
  The grid that \<^verbatim>\<open>resetGrid\<close> builds and every later command keeps: \<^verbatim>\<open>GRID_HEIGHT\<close>
  rows of \<^verbatim>\<open>GRID_WIDTH\<close> cells, each cell \<open>0\<close> or a colour string that is not empty.
\<close>

definition wf_grid :: "grid \<Rightarrow> bool" where
  "wf_grid g =
     (length g = nat GRID_HEIGHT \<and>
      list_all (\<lambda>r. length r = nat GRID_WIDTH \<and> list_all (\<lambda>c. c = Zero \<or> truthy c) r) g)"

subsection \<open>Repeated commands\<close>

text \<open>The matrix after \<open>n\<close> applications of the rotation of \<^verbatim>\<open>rotatePiece\<close>.\<close>

fun rotated_n :: "nat \<Rightarrow> shape \<Rightarrow> shape option" where
  "rotated_n 0 sh = Some sh"
| "rotated_n (Suc n) sh = Option.bind (rotated_n n sh) rotated"

text \<open>The state after \<open>n\<close> calls of \<^verbatim>\<open>rotatePiece()\<close>.\<close>

fun rotatePiece_n :: "nat \<Rightarrow> state \<Rightarrow> state option" where
  "rotatePiece_n 0 s = Some s"
| "rotatePiece_n (Suc n) s = Option.bind (rotatePiece_n n s) rotatePiece"

text \<open>A sequence of key presses, each handled by the \<^verbatim>\<open>keydown\<close> listener.\<close>

fun keys :: "string list \<Rightarrow> state \<Rightarrow> state option" where
  "keys [] s = Some s"
| "keys (k # ks) s = Option.bind (keydown s k) (keys ks)"

text \<open>
  \<open>n\<close> calls of \<^verbatim>\<open>movePiece(0, 1)\<close> in a row that all return \<^verbatim>\<open>true\<close>; \<open>None\<close> when
  one of them does not.
\<close>

fun moves_down :: "nat \<Rightarrow> state \<Rightarrow> state option" where
  "moves_down 0 s = Some s"
| "moves_down (Suc n) s =
     (case movePiece s 0 1 of
        None \<Rightarrow> None
      | Some (r, s1) \<Rightarrow> if truthy_ret r then moves_down n s1 else None)"

text \<open>The commands of the engine, and a sequence of them run in order.\<close>

datatype command = Move int int | Rotate | HardDrop | Lock

fun exec :: "command \<Rightarrow> state \<Rightarrow> state option" where
  "exec (Move dx dy) s = map_option snd (movePiece s dx dy)"
| "exec Rotate s = rotatePiece s"
| "exec HardDrop s = hardDrop s"
| "exec Lock s = lockPiece s"

fun run :: "command list \<Rightarrow> state \<Rightarrow> state option" where
  "run [] s = Some s"
| "run (c # cs) s = Option.bind (exec c s) (run cs)"

subsection \<open>The invariant of the engine\<close>

text \<open>The seven shapes of \<^verbatim>\<open>SHAPES\<close>, each in its four orientations.\<close>

definition orientations :: "shape list" where
  "orientations =
     List.map_filter (\<lambda>(sh, n). rotated_n n sh) (List.product (map snd SHAPES) [0, 1, 2, 3])"

text \<open>Every occupied entry of the piece is inside the side walls and above the floor.\<close>

definition in_bounds :: "piece \<Rightarrow> bool" where
  "in_bounds p =
     (\<forall>row<length (shape p). \<forall>col<length (shape p ! row). shape p ! row ! col \<noteq> 0 \<longrightarrow>
        0 \<le> x p + int col \<and> x p + int col < GRID_WIDTH \<and> y p + int row < GRID_HEIGHT)"


definition wf_piece :: "piece \<Rightarrow> bool" where
  "wf_piece p = (shape p \<in> set orientations \<and> color p \<noteq> [] \<and> in_bounds p)"

text \<open>\<^verbatim>\<open>Math.random()\<close> returns numbers from \<open>0\<close> up to but not including \<open>1\<close>.\<close>

definition draws_ok :: "state \<Rightarrow> bool" where
  "draws_ok s = (\<forall>i. 0 \<le> rand s i \<and> rand s i < 1)"

text \<open>
  What holds of the state after \<^verbatim>\<open>init()\<close> and after every command: the grid is
  well-formed and has no full row, the active piece (if any) is a catalogue shape in one
  of its orientations inside the walls, and the counters are in their ranges.
\<close>

definition engine_inv :: "state \<Rightarrow> bool" where
  "engine_inv s =
     (wf_grid (grid s) \<and> list_all (\<lambda>r. \<not> row_full r) (grid s) \<and>
      (case currentPiece s of None \<Rightarrow> True | Some p \<Rightarrow> wf_piece p) \<and>
      draws_ok s \<and> 0 \<le> score s \<and> 0 \<le> energy s \<and> 1 \<le> level s)"

text \<open>
  What the proofs use of an orientation: it has a row, at most four rows, an occupied
  entry, and its rotation is an orientation again.
\<close>

definition shape_ok :: "shape \<Rightarrow> bool" where
  "shape_ok sh = (sh \<noteq> [] \<and> length sh \<le> 4 \<and> list_ex (list_ex (\<lambda>v. v \<noteq> 0)) sh \<and>
     (case rotated sh of None \<Rightarrow> False | Some r \<Rightarrow> r \<in> set orientations))"

text \<open>
  A step from \<open>s\<close> to \<open>s'\<close> of a running session: the invariant holds after it, score
  and energy have not gone down, and an unlocked treasure stays unlocked with its code.
\<close>

definition advances :: "state \<Rightarrow> state \<Rightarrow> bool" where
  "advances s s' =
     (engine_inv s' \<and> score s \<le> score s' \<and> energy s \<le> energy s' \<and>
      (treasureUnlocked s \<longrightarrow> treasureUnlocked s' \<and> treasureCode s' = treasureCode s))"

subsection \<open>Example states\<close>

text \<open>
  The state after \<^verbatim>\<open>init()\<close>: the variables as declared, the grid of \<^verbatim>\<open>resetGrid\<close>.
  The argument is the supply of random numbers.
\<close>

definition init_state :: "(nat \<Rightarrow> rat) \<Rightarrow> state" where
  "init_state rnd =
     resetGrid \<lparr>grid = [], currentPiece = None, gameLoop = False, score = 0, level = 1,
       energy = 0, isPaused = False, gameStarted = False, dropInterval = 1000,
       lastDropTime = 0, treasureUnlocked = False, treasureCode = [],
       treasureCardHidden = True, rand = rnd, randCalls = 0\<rparr>"

text \<open>The supply in which every call of \<^verbatim>\<open>Math.random()\<close> returns \<open>r\<close>.\<close>

definition all_draws :: "rat \<Rightarrow> nat \<Rightarrow> rat" where
  "all_draws r i = r"

text \<open>
  The grid as \<^verbatim>\<open>lockPiece\<close> hands it to \<^verbatim>\<open>clearLines\<close>: the grid of the state with the
  cells of the active piece written into it.
\<close>

definition grid_at_lock :: "state \<Rightarrow> grid option" where
  "grid_at_lock s =
     (case currentPiece s of None \<Rightarrow> None | Some p \<Rightarrow> lock_rows (grid s) p (shape p) 0)"

text \<open>An empty grid but for one locked cell in the bottom row, column \<open>5\<close>.\<close>

definition one_cell_grid :: grid where
  "one_cell_grid =
     (replicate 20 (replicate 10 Zero))[19 := (replicate 10 Zero)[5 := Color ''#FFC185'']]"

text \<open>
  A game in which every spawned piece is the \<^verbatim>\<open>O\<close> piece: four of them are dropped side
  by side on columns \<open>0\<close> to \<open>7\<close>, the fifth is moved over columns \<open>8\<close> and \<open>9\<close> and
  stepped down to rows \<open>18\<close> and \<open>19\<close>, where it comes to rest.
\<close>

definition double_clear_play :: "state option" where
  "double_clear_play =
     Option.bind (startGame (init_state (all_draws (1 / 5))))
       (keys (replicate 4 ''ArrowLeft'' @ ['' ''] @
              replicate 2 ''ArrowLeft'' @ ['' ''] @
              ['' ''] @
              replicate 2 ''ArrowRight'' @ ['' ''] @
              replicate 4 ''ArrowRight'' @ replicate 18 ''ArrowDown''))"

text \<open>The grid with rows \<open>18\<close> and \<open>19\<close> full and all other rows empty.\<close>

definition double_clear_grid :: grid where
  "double_clear_grid =
     replicate 18 (replicate 10 Zero) @
       [replicate 10 (Color ''#FFC185''), replicate 10 (Color ''#FFC185'')]"

text \<open>
  The state after \<^verbatim>\<open>init()\<close> and a click on the start button, when the first call of
  \<^verbatim>\<open>Math.random()\<close> returns \<open>0\<close>: the \<^verbatim>\<open>I\<close> piece has been spawned.
\<close>

definition started_state :: state where
  "started_state =
     (init_state (all_draws 0))
       \<lparr>currentPiece := Some \<lparr>shape = [[1, 1, 1, 1]], color = ''#1FB8CD'', x = 4, y = 0\<rparr>,
        gameLoop := True, gameStarted := True, randCalls := 1\<rparr>"


definition on_floor_state :: state where
  "on_floor_state =
     started_state
       \<lparr>currentPiece := Some \<lparr>shape = [[1, 1, 1, 1]], color = ''#1FB8CD'', x = 4, y = 19\<rparr>,
        score := 19, energy := 19\<rparr>"


text \<open>
  The supply whose first ten numbers select the \<^verbatim>\<open>O\<close> piece and whose later numbers
  select the \<^verbatim>\<open>I\<close> piece, and the game in which the ten \<^verbatim>\<open>O\<close> pieces are dropped
  where they spawn, with the space key.
\<close>

definition o_then_i_draws :: "nat \<Rightarrow> rat" where
  "o_then_i_draws i = (if i < 10 then 1 / 5 else 0)"

definition top_out_play :: "state option" where
  "top_out_play =
     Option.bind (startGame (init_state o_then_i_draws)) (keys (replicate 10 '' ''))"

text \<open>
  A state one line clear short of the treasure: the bottom row is full, the energy is
  \<open>4950\<close>, and the calls of \<^verbatim>\<open>Math.random()\<close> return \<open>1/72\<close>, \<open>3/72\<close>, \<open>5/72\<close>, ...
\<close>

definition step_draws :: "nat \<Rightarrow> rat" where
  "step_draws i = of_nat (2 * (i mod 36) + 1) / 72"

definition near_unlock_state :: state where
  "near_unlock_state =
     (init_state step_draws)
       \<lparr>grid := replicate 19 (replicate 10 Zero) @ [replicate 10 (Color ''#FFC185'')],
        energy := 4950\<rparr>"

text \<open>The same state in a session whose treasure is unlocked already.\<close>

definition unlocked_state :: state where
  "unlocked_state = near_unlock_state\<lparr>treasureUnlocked := True, treasureCode := ''ZZZZ9999''\<rparr>"

text \<open>The started game with the energy one short of the threshold.\<close>

definition almost_state :: state where
  "almost_state = started_state\<lparr>energy := 4999\<rparr>"

text \<open>The started game with the treasure unlocked.\<close>

definition started_unlocked_state :: state where
  "started_unlocked_state =
     started_state\<lparr>energy := 6000, treasureUnlocked := True, treasureCode := ''ZZZZ9999''\<rparr>"

section \<open>Properties\<close>

subsection \<open>The collision check\<close>

lemma ex_less_Suc_shift: "(\<exists>i<Suc n. P i) = (P 0 \<or> (\<exists>i<n. P (Suc i)))"
  by (metis less_Suc_eq_0_disj)

text \<open>
  The inner loop answers for the occupied entries of its row, whatever the cell test
  \<open>h\<close> is, as long as the body of the loop computes \<open>h\<close> on those entries.
\<close>

lemma collision_cols_char:
  assumes "\<And>i. i < length vs \<Longrightarrow> vs ! i \<noteq> 0 \<Longrightarrow>
             collision_cell g (x0 + int (col + i)) ny = Some (h (x0 + int (col + i)))"
  shows "collision_cols g x0 ny vs col =
           Some (\<exists>i<length vs. vs ! i \<noteq> 0 \<and> h (x0 + int (col + i)))"
  using assms
proof (induction vs arbitrary: col)
  case Nil
  show ?case by simp
next
  case (Cons v vs)
  have tl: "collision_cols g x0 ny vs (Suc col) =
              Some (\<exists>i<length vs. vs ! i \<noteq> 0 \<and> h (x0 + int (Suc col + i)))"
  proof (rule Cons.IH)
    fix i assume "i < length vs" "vs ! i \<noteq> 0"
    then show "collision_cell g (x0 + int (Suc col + i)) ny = Some (h (x0 + int (Suc col + i)))"
      using Cons.prems [of "Suc i"] by simp
  qed
  show ?case
  proof (cases "v = 0")
    case True
    then show ?thesis by (simp add: tl ex_less_Suc_shift ac_simps)
  next
    case False
    then have "collision_cell g (x0 + int col) ny = Some (h (x0 + int col))"
      using Cons.prems [of 0] by simp
    with False show ?thesis
      by (simp add: tl ex_less_Suc_shift ac_simps split: bool.splits)
  qed
qed

lemma collision_rows_char:
  assumes "\<And>r i. r < length sh \<Longrightarrow> i < length (sh ! r) \<Longrightarrow> sh ! r ! i \<noteq> 0 \<Longrightarrow>
             collision_cell g (x0 + int i) (y0 + int (row + r)) =
               Some (h (x0 + int i) (y0 + int (row + r)))"
  shows "collision_rows g x0 y0 sh row =
           Some (\<exists>r<length sh. \<exists>i<length (sh ! r). sh ! r ! i \<noteq> 0 \<and>
                   h (x0 + int i) (y0 + int (row + r)))"
  using assms
proof (induction sh arbitrary: row)
  case Nil
  show ?case by simp
next
  case (Cons r0 sh)
  have hd: "collision_cols g x0 (y0 + int row) r0 0 =
              Some (\<exists>i<length r0. r0 ! i \<noteq> 0 \<and> h (x0 + int (0 + i)) (y0 + int row))"
  proof (rule collision_cols_char)
    fix i assume "i < length r0" "r0 ! i \<noteq> 0"
    then show "collision_cell g (x0 + int (0 + i)) (y0 + int row) =
                 Some (h (x0 + int (0 + i)) (y0 + int row))"
      using Cons.prems [of 0 i] by simp
  qed
  have tl: "collision_rows g x0 y0 sh (Suc row) =
              Some (\<exists>r<length sh. \<exists>i<length (sh ! r). sh ! r ! i \<noteq> 0 \<and>
                      h (x0 + int i) (y0 + int (Suc row + r)))"
  proof (rule Cons.IH)
    fix r i assume "r < length sh" "i < length (sh ! r)" "sh ! r ! i \<noteq> 0"
    then show "collision_cell g (x0 + int i) (y0 + int (Suc row + r)) =
                 Some (h (x0 + int i) (y0 + int (Suc row + r)))"
      using Cons.prems [of "Suc r" i] by simp
  qed
  show ?case
    by (cases "\<exists>i<length r0. r0 ! i \<noteq> 0 \<and> h (x0 + int (0 + i)) (y0 + int row)")
       (auto simp add: hd tl ex_less_Suc_shift ac_simps split: bool.splits)
qed

lemma wf_grid_nth:
  assumes "wf_grid g" "r < 20" "c < 10"
  shows "r < length g" "c < length (g ! r)" "truthy (g ! r ! c) = (g ! r ! c \<noteq> Zero)"
proof -
  show r: "r < length g" using assms by (simp add: wf_grid_def GRID_HEIGHT_def)
  have row: "length (g ! r) = 10 \<and> list_all (\<lambda>c. c = Zero \<or> truthy c) (g ! r)"
    using assms r by (simp add: wf_grid_def list_all_length GRID_WIDTH_def)
  then show c: "c < length (g ! r)" using assms by simp
  from row c have "g ! r ! c = Zero \<or> truthy (g ! r ! c)"
    by (simp add: list_all_length)
  then show "truthy (g ! r ! c) = (g ! r ! c \<noteq> Zero)" by auto
qed

lemma collision_cell_wf:
  assumes "wf_grid g"
  shows "collision_cell g nx ny =
           Some (nx < 0 \<or> nx \<ge> GRID_WIDTH \<or> ny \<ge> GRID_HEIGHT \<or>
                 (ny \<ge> 0 \<and> g ! nat ny ! nat nx \<noteq> Zero))"
proof (cases "nx < 0 \<or> nx \<ge> GRID_WIDTH \<or> ny \<ge> GRID_HEIGHT \<or> ny < 0")
  case True
  then show ?thesis by (auto simp: collision_cell_def)
next
  case False
  then have "nat ny < 20" "nat nx < 10"
    by (auto simp: GRID_WIDTH_def GRID_HEIGHT_def)
  from wf_grid_nth [OF assms this] False show ?thesis
    by (simp add: collision_cell_def grid_truthy_def)
qed

text \<open>The check on a well-formed grid, for use in the later proofs.\<close>

lemma checkCollision_wf:
  assumes "wf_grid g"
  shows "checkCollision g x0 y0 sh =
        Some (\<exists>row<length sh. \<exists>col<length (sh ! row). sh ! row ! col \<noteq> 0 \<and>
                (x0 + int col < 0 \<or> x0 + int col \<ge> GRID_WIDTH \<or>
                 y0 + int row \<ge> GRID_HEIGHT \<or>
                 (y0 + int row \<ge> 0 \<and>
                  g ! nat (y0 + int row) ! nat (x0 + int col) \<noteq> Zero)))"
  unfolding checkCollision_def
  using collision_rows_char [of sh g x0 y0 0
      "\<lambda>nx ny. nx < 0 \<or> nx \<ge> GRID_WIDTH \<or> ny \<ge> GRID_HEIGHT \<or>
               (ny \<ge> 0 \<and> g ! nat ny ! nat nx \<noteq> Zero)"]
  by (simp add: collision_cell_wf [OF assms])

text \<open>
  C1. On every well-formed board, for every shape matrix and integer position, the
  collision check returns true if and only if some occupied entry of the shape placed at
  the position lies left of column \<open>0\<close>, at or right of column \<^verbatim>\<open>GRID_WIDTH\<close>, at or below
  row \<^verbatim>\<open>GRID_HEIGHT\<close>, or on a row \<open>\<ge> 0\<close> whose board cell is not empty. Occupied entries
  on negative rows are never compared against the board: when all occupied entries are
  on negative rows the check returns, on any grid value at all (even one with no rows,
  where any read of a cell would throw), and its answer is the horizontal test alone.
\<close>

theorem checkCollision_iff:
  "(wf_grid g \<longrightarrow>
      checkCollision g x0 y0 sh =
        Some (\<exists>row<length sh. \<exists>col<length (sh ! row). sh ! row ! col \<noteq> 0 \<and>
                (x0 + int col < 0 \<or> x0 + int col \<ge> GRID_WIDTH \<or>
                 y0 + int row \<ge> GRID_HEIGHT \<or>
                 (y0 + int row \<ge> 0 \<and>
                  g ! nat (y0 + int row) ! nat (x0 + int col) \<noteq> Zero)))) \<and>
   ((\<forall>row<length sh. \<forall>col<length (sh ! row). sh ! row ! col \<noteq> 0 \<longrightarrow> y0 + int row < 0) \<longrightarrow>
      checkCollision g x0 y0 sh =
        Some (\<exists>row<length sh. \<exists>col<length (sh ! row). sh ! row ! col \<noteq> 0 \<and>
                (x0 + int col < 0 \<or> x0 + int col \<ge> GRID_WIDTH)))"
proof (intro conjI impI)
  assume wf: "wf_grid g"
  show "checkCollision g x0 y0 sh =
        Some (\<exists>row<length sh. \<exists>col<length (sh ! row). sh ! row ! col \<noteq> 0 \<and>
                (x0 + int col < 0 \<or> x0 + int col \<ge> GRID_WIDTH \<or>
                 y0 + int row \<ge> GRID_HEIGHT \<or>
                 (y0 + int row \<ge> 0 \<and>
                  g ! nat (y0 + int row) ! nat (x0 + int col) \<noteq> Zero)))"
    unfolding checkCollision_def
    using collision_rows_char [of sh g x0 y0 0
        "\<lambda>nx ny. nx < 0 \<or> nx \<ge> GRID_WIDTH \<or> ny \<ge> GRID_HEIGHT \<or>
                 (ny \<ge> 0 \<and> g ! nat ny ! nat nx \<noteq> Zero)"]
    by (simp add: collision_cell_wf [OF wf])
next
  assume neg: "\<forall>row<length sh. \<forall>col<length (sh ! row). sh ! row ! col \<noteq> 0 \<longrightarrow> y0 + int row < 0"
  have "collision_rows g x0 y0 sh 0 =
          Some (\<exists>r<length sh. \<exists>i<length (sh ! r). sh ! r ! i \<noteq> 0 \<and>
                  (x0 + int i < 0 \<or> x0 + int i \<ge> GRID_WIDTH))"
  proof (rule collision_rows_char [of sh g x0 y0 0 "\<lambda>nx ny. nx < 0 \<or> nx \<ge> GRID_WIDTH"])
    fix r i assume "r < length sh" "i < length (sh ! r)" "sh ! r ! i \<noteq> 0"
    with neg have "y0 + int r < 0" by blast
    then show "collision_cell g (x0 + int i) (y0 + int (0 + r)) =
                 Some (x0 + int i < 0 \<or> x0 + int i \<ge> GRID_WIDTH)"
      by (simp add: collision_cell_def GRID_HEIGHT_def)
  qed
  then show "checkCollision g x0 y0 sh =
        Some (\<exists>row<length sh. \<exists>col<length (sh ! row). sh ! row ! col \<noteq> 0 \<and>
                (x0 + int col < 0 \<or> x0 + int col \<ge> GRID_WIDTH))"
    by (simp add: checkCollision_def)
qed

theorem checkCollision_iff_witness:
  "wf_grid one_cell_grid \<and>
   checkCollision one_cell_grid 4 18 [[1, 1, 1, 1]] = Some False \<and>
   checkCollision one_cell_grid 4 19 [[1, 1, 1, 1]] = Some True \<and>
   checkCollision [] 4 (- 1) [[1, 1, 1, 1]] = Some False"
proof -
  have wf: "wf_grid one_cell_grid"
    unfolding one_cell_grid_def by code_simp
  have a: "checkCollision one_cell_grid 4 18 [[1, 1, 1, 1]] = Some False"
    using checkCollision_iff [of one_cell_grid 4 18 "[[1, 1, 1, 1]]"] wf
    by (simp add: Ex_less_Suc numeral_eq_Suc one_cell_grid_def GRID_WIDTH_def GRID_HEIGHT_def)
  have b: "checkCollision one_cell_grid 4 19 [[1, 1, 1, 1]] = Some True"
    using checkCollision_iff [of one_cell_grid 4 19 "[[1, 1, 1, 1]]"] wf
    by (simp add: Ex_less_Suc numeral_eq_Suc one_cell_grid_def GRID_WIDTH_def GRID_HEIGHT_def)
  have c: "checkCollision [] 4 (- 1) [[1, 1, 1, 1]] = Some False"
    using checkCollision_iff [of "[]" 4 "- 1" "[[1, 1, 1, 1]]"]
    by (simp add: Ex_less_Suc All_less_Suc numeral_eq_Suc GRID_WIDTH_def)
  from wf a b c show ?thesis by blast
qed

subsection \<open>Rotation\<close>

lemma rotated_n_catalog:
  "(k, sh) \<in> set SHAPES \<Longrightarrow> rotated_n 4 sh = Some sh"
  by (auto simp: SHAPES_def numeral_eq_Suc rotated_def upt_rec)

lemma rotatePiece_n_accepted:
  assumes "currentPiece s = Some p"
    and "\<forall>m. 1 \<le> m \<and> m \<le> n \<longrightarrow>
           (\<exists>r. rotated_n m (shape p) = Some r \<and>
                checkCollision (grid s) (x p) (y p) r = Some False)"
  shows "\<exists>r. rotated_n n (shape p) = Some r \<and>
             rotatePiece_n n s = Some (s\<lparr>currentPiece := Some (p\<lparr>shape := r\<rparr>)\<rparr>)"
  using assms(2)
proof (induction n)
  case 0
  show ?case using assms(1) by simp
next
  case (Suc n)
  then obtain r where r: "rotated_n n (shape p) = Some r"
    "rotatePiece_n n s = Some (s\<lparr>currentPiece := Some (p\<lparr>shape := r\<rparr>)\<rparr>)"
    by (metis le_SucI)
  from Suc.prems obtain r' where r': "rotated_n (Suc n) (shape p) = Some r'"
    "checkCollision (grid s) (x p) (y p) r' = Some False"
    by (metis le_refl le_add1 plus_1_eq_Suc)
  from r r' have "rotated r = Some r'" by simp
  with r r' show ?case by (simp add: rotatePiece_def)
qed

text \<open>
  C9. For each of the seven shapes of \<^verbatim>\<open>SHAPES\<close>, the rotation of \<^verbatim>\<open>rotatePiece\<close> (new row
  \<open>i\<close> is old column \<open>i\<close> reversed) applied four times gives back the same matrix; and
  when the board does not obstruct the piece, that is when none of the four rotated
  matrices collides at the position of the piece, four calls of \<^verbatim>\<open>rotatePiece()\<close> leave
  the whole state, and so the shape of the piece, as it was.
\<close>

theorem rotate_four_times:
  assumes "(k, sh) \<in> set SHAPES"
  shows "rotated_n 4 sh = Some sh \<and>
         (\<forall>(s::state) (p::piece). currentPiece s = Some p \<and> shape p = sh \<and>
            (\<forall>m\<in>{1, 2, 3, 4}. \<exists>r. rotated_n m sh = Some r \<and>
                checkCollision (grid s) (x p) (y p) r = Some False) \<longrightarrow>
            rotatePiece_n 4 s = Some s)"
proof (intro conjI allI impI)
  show c: "rotated_n 4 sh = Some sh" using assms by (rule rotated_n_catalog)
  fix s :: state and p :: piece
  assume a: "currentPiece s = Some p \<and> shape p = sh \<and>
            (\<forall>m\<in>{1, 2, 3, 4}. \<exists>r. rotated_n m sh = Some r \<and>
                checkCollision (grid s) (x p) (y p) r = Some False)"
  have "\<forall>m. 1 \<le> m \<and> m \<le> 4 \<longrightarrow>
           (\<exists>r. rotated_n m (shape p) = Some r \<and>
                checkCollision (grid s) (x p) (y p) r = Some False)"
  proof (intro allI impI)
    fix m :: nat assume "1 \<le> m \<and> m \<le> 4"
    then have "m \<in> {1, 2, 3, 4}" by auto
    with a show "\<exists>r. rotated_n m (shape p) = Some r \<and>
                checkCollision (grid s) (x p) (y p) r = Some False" by blast
  qed
  from rotatePiece_n_accepted [of s p 4] this a c
  have "rotatePiece_n 4 s = Some (s\<lparr>currentPiece := Some (p\<lparr>shape := sh\<rparr>)\<rparr>)"
    by auto
  with a show "rotatePiece_n 4 s = Some s" by auto
qed

theorem rotate_four_times_witness:
  "(''T'', [[0, 1, 0], [1, 1, 1]]) \<in> set SHAPES \<and>
   rotated_n 1 [[0, 1, 0], [1, 1, 1]] = Some [[1, 0], [1, 1], [1, 0]] \<and>
   rotated_n 4 [[0, 1, 0], [1, 1, 1]] = Some [[0, 1, 0], [1, 1, 1]] \<and>
   rotatePiece_n 4 ((init_state (all_draws 0))\<lparr>currentPiece :=
       Some \<lparr>shape = [[0, 1, 0], [1, 1, 1]], color = ''#B4413C'', x = 4, y = 0\<rparr>\<rparr>) =
     Some ((init_state (all_draws 0))\<lparr>currentPiece :=
       Some \<lparr>shape = [[0, 1, 0], [1, 1, 1]], color = ''#B4413C'', x = 4, y = 0\<rparr>\<rparr>)"
proof -
  let ?sh = "[[0, 1, 0], [1, 1, 1]] :: shape"
  let ?p = "\<lparr>shape = ?sh, color = ''#B4413C'', x = 4, y = 0\<rparr>"
  let ?s = "(init_state (all_draws 0))\<lparr>currentPiece := Some ?p\<rparr>"
  have m: "(''T'', ?sh) \<in> set SHAPES" by (simp add: SHAPES_def)
  have r1: "rotated_n 1 ?sh = Some [[1, 0], [1, 1], [1, 0]]" by code_simp
  have r2: "rotated_n 2 ?sh = Some [[1, 1, 1], [0, 1, 0]]" by code_simp
  have r3: "rotated_n 3 ?sh = Some [[0, 1], [1, 1], [0, 1]]" by code_simp
  have r4: "rotated_n 4 ?sh = Some ?sh" by code_simp
  have c1: "checkCollision (grid ?s) 4 0 [[1, 0], [1, 1], [1, 0]] = Some False" by code_simp
  have c2: "checkCollision (grid ?s) 4 0 [[1, 1, 1], [0, 1, 0]] = Some False" by code_simp
  have c3: "checkCollision (grid ?s) 4 0 [[0, 1], [1, 1], [0, 1]] = Some False" by code_simp
  have c4: "checkCollision (grid ?s) 4 0 ?sh = Some False" by code_simp
  have h: "\<forall>m\<in>{1, 2, 3, 4}. \<exists>r. rotated_n m ?sh = Some r \<and>
                checkCollision (grid ?s) (x ?p) (y ?p) r = Some False"
    using r1 r2 r3 r4 c1 c2 c3 c4 by simp
  have "rotatePiece_n 4 ?s = Some ?s"
    using rotate_four_times [OF m] h by simp
  with m r1 r4 show ?thesis by simp
qed

subsection \<open>Commands without an active piece\<close>

text \<open>
  C10. With no active piece, \<^verbatim>\<open>movePiece\<close>, \<^verbatim>\<open>rotatePiece\<close> and \<^verbatim>\<open>hardDrop\<close> return at
  once and leave every variable of the state as it was; none throws. \<^verbatim>\<open>movePiece\<close>
  returns \<^verbatim>\<open>undefined\<close>, which is falsy (failure); the other two return no value.
\<close>

theorem no_piece_no_op:
  assumes "currentPiece s = None"
  shows "movePiece s dx dy = Some (Undefined, s) \<and> \<not> truthy_ret Undefined \<and>
         rotatePiece s = Some s \<and> hardDrop s = Some s"
  using assms by (simp add: movePiece_def rotatePiece_def hardDrop_def)

theorem no_piece_no_op_witness:
  "currentPiece (init_state (all_draws 0)) = None \<and>
   movePiece (init_state (all_draws 0)) (- 1) 0 = Some (Undefined, init_state (all_draws 0)) \<and>
   rotatePiece (init_state (all_draws 0)) = Some (init_state (all_draws 0)) \<and>
   hardDrop (init_state (all_draws 0)) = Some (init_state (all_draws 0))"
proof -
  have n: "currentPiece (init_state (all_draws 0)) = None"
    by (simp add: init_state_def resetGrid_def)
  from no_piece_no_op [OF n] n show ?thesis by simp
qed

subsection \<open>Clearing lines\<close>

lemma emptyRow_not_full: "\<not> row_full emptyRow"
  by (simp add: row_full_def emptyRow_def GRID_WIDTH_def list_all_iff)

lemma clearLines_loop_char:
  "k \<le> length g \<Longrightarrow>
   clearLines_loop g k n =
     Some (replicate (length (filter row_full (take k g))) emptyRow @
             filter (\<lambda>r. \<not> row_full r) (take k g) @ drop k g,
           n + length (filter row_full (take k g)))"
proof (induction g k n rule: clearLines_loop.induct)
  case (1 g linesCleared)
  show ?case by simp
next
  case (2 g row linesCleared)
  then have lt: "row < length g" by simp
  have t: "take (Suc row) g = take row g @ [g ! row]"
    using lt by (simp add: take_Suc_conv_app_nth)
  show ?case
  proof (cases "row_full (g ! row)")
    case True
    let ?g = "emptyRow # (take row g @ drop (Suc row) g)"
    have len: "Suc row \<le> length ?g" using lt by simp
    have tk: "take (Suc row) ?g = emptyRow # take row g" using lt by simp
    have dr: "drop (Suc row) ?g = drop (Suc row) g" using lt by simp
    have "clearLines_loop g (Suc row) linesCleared = clearLines_loop ?g (Suc row) (Suc linesCleared)"
      using lt True by simp
    also have "\<dots> = Some (replicate (length (filter row_full (take (Suc row) ?g))) emptyRow @
             filter (\<lambda>r. \<not> row_full r) (take (Suc row) ?g) @ drop (Suc row) ?g,
           Suc linesCleared + length (filter row_full (take (Suc row) ?g)))"
      using "2.IH"(1) [OF lt True len] .
    also have "\<dots> = Some (replicate (length (filter row_full (take (Suc row) g))) emptyRow @
             filter (\<lambda>r. \<not> row_full r) (take (Suc row) g) @ drop (Suc row) g,
           linesCleared + length (filter row_full (take (Suc row) g)))"
      unfolding tk dr using True
      by (simp add: t emptyRow_not_full replicate_app_Cons_same)
    finally show ?thesis .
  next
    case False
    have "clearLines_loop g (Suc row) linesCleared = clearLines_loop g row linesCleared"
      using lt False by simp
    also have "\<dots> = Some (replicate (length (filter row_full (take row g))) emptyRow @
             filter (\<lambda>r. \<not> row_full r) (take row g) @ drop row g,
           linesCleared + length (filter row_full (take row g)))"
      using "2.IH"(2) [OF lt False] lt by simp
    also have "\<dots> = Some (replicate (length (filter row_full (take (Suc row) g))) emptyRow @
             filter (\<lambda>r. \<not> row_full r) (take (Suc row) g) @ drop (Suc row) g,
           linesCleared + length (filter row_full (take (Suc row) g)))"
      using False lt by (simp add: t Cons_nth_drop_Suc)
    finally show ?thesis .
  qed
qed

lemma clearLines_loop_all:
  "length g = nat GRID_HEIGHT \<Longrightarrow>
   clearLines_loop g (nat GRID_HEIGHT) 0 =
     Some (replicate (length (filter row_full g)) emptyRow @ filter (\<lambda>r. \<not> row_full r) g,
           length (filter row_full g))"
  using clearLines_loop_char [of "nat GRID_HEIGHT" g 0] by simp

lemma random_index_range:
  assumes "0 \<le> r" "r < 1" "0 < n"
  shows "0 \<le> random_index r n \<and> nat (random_index r n) < n"
proof -
  have "r * of_nat n < of_nat n" using assms by simp
  then have "\<lfloor>r * of_nat n\<rfloor> < int n" by (simp add: floor_less_iff)
  moreover have "0 \<le> \<lfloor>r * of_nat n\<rfloor>" using assms by simp
  ultimately show ?thesis unfolding random_index_def by linarith
qed

lemma generateTreasureCode_loop_state:
  "snd (generateTreasureCode_loop n code s) = s\<lparr>randCalls := randCalls s + n\<rparr>"
  by (induction n arbitrary: code s) (simp_all add: Math_random_def)

lemma generateTreasureCode_loop_code:
  assumes "\<forall>i. 0 \<le> rand s i \<and> rand s i < 1"
  shows "length (fst (generateTreasureCode_loop n code s)) = length code + n \<and>
         set (fst (generateTreasureCode_loop n code s)) \<subseteq> set code \<union> set chars"
  using assms
proof (induction n arbitrary: code s)
  case 0
  show ?case by simp
next
  case (Suc n)
  let ?r = "rand s (randCalls s)"
  let ?s1 = "s\<lparr>randCalls := Suc (randCalls s)\<rparr>"
  have len: "0 < length chars" by (simp add: chars_def)
  have ri: "0 \<le> random_index ?r (length chars) \<and> nat (random_index ?r (length chars)) < length chars"
    using Suc.prems len by (intro random_index_range) auto
  then have ch: "charAt chars (random_index ?r (length chars)) =
                   [chars ! nat (random_index ?r (length chars))]"
    by (simp add: charAt_def)
  have mem: "chars ! nat (random_index ?r (length chars)) \<in> set chars"
    using ri by simp
  have d: "\<forall>i. 0 \<le> rand ?s1 i \<and> rand ?s1 i < 1" using Suc.prems by simp
  from Suc.IH [OF d, of "code @ charAt chars (random_index ?r (length chars))"] mem
  show ?case
    by (auto simp add: Math_random_def ch)
qed

lemma unlockTreasure_eq:
  "unlockTreasure s =
     s\<lparr>treasureUnlocked := True, randCalls := randCalls s + 8,
       treasureCode := fst (generateTreasureCode (s\<lparr>treasureUnlocked := True\<rparr>)),
       treasureCardHidden := False\<rparr>"
proof -
  have "snd (generateTreasureCode (s\<lparr>treasureUnlocked := True\<rparr>)) =
          s\<lparr>treasureUnlocked := True, randCalls := randCalls s + 8\<rparr>"
    by (simp add: generateTreasureCode_def generateTreasureCode_loop_state)
  then show ?thesis
    by (simp add: unlockTreasure_def split_beta)
qed

lemma clearLines_eq:
  assumes "length (grid s) = nat GRID_HEIGHT"
  shows "clearLines s =
    (let n = length (filter row_full (grid s));
         s1 = s\<lparr>grid := replicate n emptyRow @ filter (\<lambda>r. \<not> row_full r) (grid s)\<rparr>
     in if n > 0 then
          (case basePoints n of
             None \<Rightarrow> None
           | Some b \<Rightarrow>
               (let s4 = s1\<lparr>score := score s + b * level s, energy := energy s + b * level s,
                            level := (score s + b * level s) div 1000 + 1,
                            dropInterval :=
                              max 100 (1000 - ((score s + b * level s) div 1000 + 1 - 1) * 100)\<rparr>
                in if energy s4 \<ge> ENERGY_THRESHOLD \<and> \<not> treasureUnlocked s
                   then Some (unlockTreasure s4) else Some s4))
        else Some s1)"
  by (simp add: clearLines_def clearLines_loop_all [OF assms] Let_def split: option.splits)



subsection \<open>The second look at a row after a removal\<close>

text \<open>
  C5, as stated, fails. In the game \<open>double_clear_play\<close> the fifth \<^verbatim>\<open>O\<close> piece comes to
  rest on rows \<open>18\<close> and \<open>19\<close>; the grid that \<^verbatim>\<open>lockPiece\<close> hands to \<^verbatim>\<open>clearLines\<close> has both
  rows full. Row \<open>19\<close> is full and removed, and the row that shifts into index \<open>19\<close> is
  full again: the second look at index \<open>19\<close> finds a second full row.
\<close>

theorem recheck_finds_full_row:
  "Option.bind double_clear_play grid_at_lock = Some double_clear_grid \<and>
   row_full (double_clear_grid ! 19) \<and>
   row_full ((emptyRow # (take 19 double_clear_grid @ drop (Suc 19) double_clear_grid)) ! 19)"
  by code_simp

text \<open>
  C5, amended. After the row at an index \<open>r > 0\<close> is removed and one fresh empty row is
  inserted at the top, the row at index \<open>r\<close> is the former row \<open>r - 1\<close>, which may itself be
  full; the second look at index \<open>r\<close> is what removes it. So one pass over a grid of
  \<^verbatim>\<open>GRID_HEIGHT\<close> rows removes every full row: it leaves the rows that are not full, in
  their order, below one fresh empty row for each row removed, and \<^verbatim>\<open>linesCleared\<close> is the
  number of full rows.
\<close>

theorem clearLines_removes_every_full_row:
  assumes "length g = nat GRID_HEIGHT"
  shows "(\<forall>r. 0 < r \<and> r < length g \<longrightarrow>
            (emptyRow # (take r g @ drop (Suc r) g)) ! r = g ! (r - 1)) \<and>
         clearLines_loop g (nat GRID_HEIGHT) 0 =
           Some (replicate (length (filter row_full g)) emptyRow @
                   filter (\<lambda>r. \<not> row_full r) g,
                 length (filter row_full g))"
proof (intro conjI allI impI)
  fix r assume "0 < r \<and> r < length g"
  then show "(emptyRow # (take r g @ drop (Suc r) g)) ! r = g ! (r - 1)"
    by (simp add: nth_Cons' nth_append)
next
  show "clearLines_loop g (nat GRID_HEIGHT) 0 =
           Some (replicate (length (filter row_full g)) emptyRow @
                   filter (\<lambda>r. \<not> row_full r) g,
                 length (filter row_full g))"
    using assms by (rule clearLines_loop_all)
qed

theorem clearLines_removes_every_full_row_witness:
  "length double_clear_grid = nat GRID_HEIGHT \<and>
   (emptyRow # (take 19 double_clear_grid @ drop (Suc 19) double_clear_grid)) ! 19 =
     double_clear_grid ! 18 \<and>
   clearLines_loop double_clear_grid (nat GRID_HEIGHT) 0 = Some (replicate 20 emptyRow, 2)"
proof -
  have l: "length double_clear_grid = nat GRID_HEIGHT" by code_simp
  have f: "length (filter row_full double_clear_grid) = 2" by code_simp
  have k: "filter (\<lambda>r. \<not> row_full r) double_clear_grid = replicate 18 emptyRow" by code_simp
  have r: "replicate 2 emptyRow @ replicate 18 emptyRow = replicate 20 emptyRow" by code_simp
  have i: "(0::nat) < 19 \<and> 19 < length double_clear_grid" by code_simp
  from clearLines_removes_every_full_row [OF l] i
  have a: "(emptyRow # (take 19 double_clear_grid @ drop (Suc 19) double_clear_grid)) ! 19 =
             double_clear_grid ! (19 - 1)"
    and b: "clearLines_loop double_clear_grid (nat GRID_HEIGHT) 0 =
           Some (replicate (length (filter row_full double_clear_grid)) emptyRow @
                   filter (\<lambda>r. \<not> row_full r) double_clear_grid,
                 length (filter row_full double_clear_grid))"
    by blast+
  from b have "clearLines_loop double_clear_grid (nat GRID_HEIGHT) 0 =
                 Some (replicate 20 emptyRow, 2)"
    by (simp only: f k r)
  with a l show ?thesis by simp
qed

subsection \<open>Shapes and spawning\<close>

lemma orientations_ok: "list_all shape_ok orientations"
  by code_simp

lemma orientation_props:
  assumes "sh \<in> set orientations"
  shows "sh \<noteq> []" "length sh \<le> 4"
    "\<exists>row<length sh. \<exists>col<length (sh ! row). sh ! row ! col \<noteq> 0"
    "\<exists>r. rotated sh = Some r \<and> r \<in> set orientations"
proof -
  have ok: "shape_ok sh" using orientations_ok assms by (simp add: list_all_iff)
  then show "sh \<noteq> []" "length sh \<le> 4" by (simp_all add: shape_ok_def)
  from ok show "\<exists>row<length sh. \<exists>col<length (sh ! row). sh ! row ! col \<noteq> 0"
    by (simp add: shape_ok_def list_ex_length)
  from ok show "\<exists>r. rotated sh = Some r \<and> r \<in> set orientations"
    by (auto simp: shape_ok_def split: option.splits)
qed

lemma catalog_orientation: "list_all (\<lambda>(k, sh). sh \<in> set orientations) SHAPES"
  by code_simp

lemma catalog_spawn_free:
  "list_all (\<lambda>(k, sh). checkCollision (replicate 20 (replicate 10 Zero)) 4 0 sh = Some False) SHAPES"
  by code_simp

lemma catalog_colors:
  "list_all (\<lambda>(k, sh). case map_of COLORS k of None \<Rightarrow> False | Some c \<Rightarrow> c \<noteq> []) SHAPES"
  by code_simp

lemma wf_empty_grid: "wf_grid (replicate 20 (replicate 10 Zero))"
  by (simp add: wf_grid_def GRID_HEIGHT_def GRID_WIDTH_def list_all_iff)

lemma free_in_bounds:
  assumes "wf_grid g" "checkCollision g (x p) (y p) (shape p) = Some False"
  shows "in_bounds p"
proof -
  have n: "\<not> (\<exists>row<length (shape p). \<exists>col<length (shape p ! row). shape p ! row ! col \<noteq> 0 \<and>
                (x p + int col < 0 \<or> x p + int col \<ge> GRID_WIDTH \<or>
                 y p + int row \<ge> GRID_HEIGHT \<or>
                 (y p + int row \<ge> 0 \<and>
                  g ! nat (y p + int row) ! nat (x p + int col) \<noteq> Zero)))"
    using assms(2) unfolding checkCollision_wf [OF assms(1)] by simp
  show ?thesis
    unfolding in_bounds_def
  proof (intro allI impI)
    fix row col
    assume "row < length (shape p)" "col < length (shape p ! row)" "shape p ! row ! col \<noteq> 0"
    with n have "\<not> (x p + int col < 0 \<or> x p + int col \<ge> GRID_WIDTH \<or>
                 y p + int row \<ge> GRID_HEIGHT)" by blast
    then show "0 \<le> x p + int col \<and> x p + int col < GRID_WIDTH \<and> y p + int row < GRID_HEIGHT"
      by simp
  qed
qed

lemma catalog_lookup:
  "list_all (\<lambda>i. map_of SHAPES (map fst SHAPES ! i) = Some (snd (SHAPES ! i)) \<and>
                 (case map_of COLORS (map fst SHAPES ! i) of None \<Rightarrow> False
                  | Some c \<Rightarrow> c \<noteq> [])) [0..<7]"
  by code_simp

lemma catalog_length: "length SHAPES = 7"
  by (simp add: SHAPES_def)

lemma spawnPiece_char:
  assumes wf: "wf_grid (grid s)" and d: "draws_ok s"
  shows "\<exists>p b. wf_piece p \<and> checkCollision (grid s) (x p) (y p) (shape p) = Some b \<and>
           spawnPiece s =
             Some ((if b then gameOver else id)
                     (s\<lparr>randCalls := Suc (randCalls s), currentPiece := Some p\<rparr>))"
proof -
  define i where "i = random_index (rand s (randCalls s)) (length (map fst SHAPES))"
  have r: "0 \<le> i \<and> nat i < 7"
    using random_index_range [of "rand s (randCalls s)" 7] d
    by (simp add: i_def draws_ok_def catalog_length)
  then have i7: "nat i < 7" by simp
  from catalog_lookup i7
  have look: "map_of SHAPES (map fst SHAPES ! nat i) = Some (snd (SHAPES ! nat i)) \<and>
        (case map_of COLORS (map fst SHAPES ! nat i) of None \<Rightarrow> False | Some c \<Rightarrow> c \<noteq> [])"
    by (simp add: list_all_iff)
  then obtain c where c: "map_of COLORS (map fst SHAPES ! nat i) = Some c" "c \<noteq> []"
    by (auto split: option.splits)
  define sh where "sh = snd (SHAPES ! nat i)"
  define p where "p = \<lparr>shape = sh, color = c, x = GRID_WIDTH div 2 - 1, y = 0\<rparr>"
  have mem: "SHAPES ! nat i \<in> set SHAPES" using i7 by (simp add: catalog_length)
  have ori: "sh \<in> set orientations"
    using catalog_orientation mem by (cases "SHAPES ! nat i") (auto simp: list_all_iff sh_def)
  have free: "checkCollision (replicate 20 (replicate 10 Zero)) 4 0 sh = Some False"
    using catalog_spawn_free mem by (cases "SHAPES ! nat i") (auto simp: list_all_iff sh_def)
  have xy: "x p = 4" "y p = 0" "shape p = sh" "color p = c"
    by (simp_all add: p_def GRID_WIDTH_def)
  have ib: "in_bounds p"
    using free_in_bounds [OF wf_empty_grid, of p] free xy by simp
  have wp: "wf_piece p" using ori c ib xy by (simp add: wf_piece_def)
  obtain b where b: "checkCollision (grid s) (x p) (y p) (shape p) = Some b"
    using checkCollision_wf [OF wf] by blast
  have "spawnPiece s =
          Some ((if b then gameOver else id)
                  (s\<lparr>randCalls := Suc (randCalls s), currentPiece := Some p\<rparr>))"
    using r look c b unfolding p_def sh_def i_def
    by (simp add: spawnPiece_def Math_random_def Let_def catalog_length split: bool.splits)
  with wp b show ?thesis by blast
qed

subsection \<open>Locking keeps the grid well-formed\<close>

lemma grid_set_wf:
  assumes wf: "wf_grid g" and b: "0 \<le> gy" "gy < GRID_HEIGHT" "0 \<le> gx" "gx < GRID_WIDTH"
    and v: "truthy v"
  shows "\<exists>g'. grid_set g gy gx v = Some g' \<and> wf_grid g' \<and> (\<forall>r. int r \<noteq> gy \<longrightarrow> g' ! r = g ! r)"
proof -
  let ?row = "(g ! nat gy)[nat gx := v]"
  let ?g = "g[nat gy := ?row]"
  have ry: "nat gy < 20" "nat gx < 10" using b by (simp_all add: GRID_HEIGHT_def GRID_WIDTH_def)
  from wf_grid_nth(1,2) [OF wf ry]
  have r: "nat gy < length g" "nat gx < length (g ! nat gy)" .
  have gs: "grid_set g gy gx v = Some ?g"
    using r b by (simp add: grid_set_def)
  have rows: "\<forall>r\<in>set g. length r = nat GRID_WIDTH \<and> (\<forall>c\<in>set r. c = Zero \<or> truthy c)"
    using wf by (simp add: wf_grid_def list_all_iff)
  have old: "g ! nat gy \<in> set g" using r by simp
  have new: "length ?row = nat GRID_WIDTH \<and> (\<forall>c\<in>set ?row. c = Zero \<or> truthy c)"
  proof
    show "length ?row = nat GRID_WIDTH" using rows old by simp
    show "\<forall>c\<in>set ?row. c = Zero \<or> truthy c"
    proof
      fix c assume "c \<in> set ?row"
      then have "c \<in> insert v (set (g ! nat gy))"
        using set_update_subset_insert by fast
      then show "c = Zero \<or> truthy c" using v rows old by auto
    qed
  qed
  have "\<forall>r\<in>set ?g. length r = nat GRID_WIDTH \<and> (\<forall>c\<in>set r. c = Zero \<or> truthy c)"
  proof
    fix r' assume "r' \<in> set ?g"
    then have "r' \<in> insert ?row (set g)"
      using set_update_subset_insert by fast
    then show "length r' = nat GRID_WIDTH \<and> (\<forall>c\<in>set r'. c = Zero \<or> truthy c)"
      using new rows by blast
  qed
  then have wf': "wf_grid ?g" using wf by (simp add: wf_grid_def list_all_iff)
  have same: "\<forall>r. int r \<noteq> gy \<longrightarrow> ?g ! r = g ! r"
    using b by auto
  from gs wf' same show ?thesis by blast
qed

lemma lock_cols_wf:
  assumes "wf_grid g" and c: "color p \<noteq> []"
    and "\<forall>i<length vs. vs ! i \<noteq> 0 \<longrightarrow>
           0 \<le> x p + int (col + i) \<and> x p + int (col + i) < GRID_WIDTH \<and>
           y p + int row < GRID_HEIGHT"
  shows "\<exists>g'. lock_cols g p row vs col = Some g' \<and> wf_grid g' \<and>
              (\<forall>r. int r \<noteq> y p + int row \<longrightarrow> g' ! r = g ! r)"
  using assms(1,3)
proof (induction vs arbitrary: g col)
  case Nil
  then show ?case by simp
next
  case (Cons v vs)
  have tl: "\<forall>i<length vs. vs ! i \<noteq> 0 \<longrightarrow>
           0 \<le> x p + int (Suc col + i) \<and> x p + int (Suc col + i) < GRID_WIDTH \<and>
           y p + int row < GRID_HEIGHT"
  proof (intro allI impI)
    fix i assume "i < length vs" "vs ! i \<noteq> 0"
    then show "0 \<le> x p + int (Suc col + i) \<and> x p + int (Suc col + i) < GRID_WIDTH \<and>
           y p + int row < GRID_HEIGHT"
      using Cons.prems(2) [rule_format, of "Suc i"] by simp
  qed
  show ?case
  proof (cases "v \<noteq> 0 \<and> y p + int row \<ge> 0")
    case False
    then have "lock_cols g p row (v # vs) col = lock_cols g p row vs (Suc col)" by auto
    with Cons.IH [OF Cons.prems(1) tl] show ?thesis by simp
  next
    case True
    then have "0 \<le> x p + int col \<and> x p + int col < GRID_WIDTH \<and> y p + int row < GRID_HEIGHT"
      using Cons.prems(2) [rule_format, of 0] by simp
    with True grid_set_wf [OF Cons.prems(1), of "y p + int row" "x p + int col" "Color (color p)"] c
    obtain g1 where g1: "grid_set g (y p + int row) (x p + int col) (Color (color p)) = Some g1"
      "wf_grid g1" "\<forall>r. int r \<noteq> y p + int row \<longrightarrow> g1 ! r = g ! r"
      by auto
    from Cons.IH [OF g1(2) tl] obtain g' where
      g': "lock_cols g1 p row vs (Suc col) = Some g'" "wf_grid g'"
      "\<forall>r. int r \<noteq> y p + int row \<longrightarrow> g' ! r = g1 ! r"
      by blast
    have "lock_cols g p row (v # vs) col = Some g'"
      using True g1(1) g'(1) by simp
    with g'(2,3) g1(3) show ?thesis by simp
  qed
qed

lemma lock_rows_wf:
  assumes "wf_grid g" and c: "color p \<noteq> []"
    and "\<forall>r<length rs. \<forall>i<length (rs ! r). rs ! r ! i \<noteq> 0 \<longrightarrow>
           0 \<le> x p + int i \<and> x p + int i < GRID_WIDTH \<and>
           y p + int (row + r) < GRID_HEIGHT"
  shows "\<exists>g'. lock_rows g p rs row = Some g' \<and> wf_grid g' \<and>
              (\<forall>r. \<not> (y p + int row \<le> int r \<and> int r < y p + int row + int (length rs)) \<longrightarrow>
                   g' ! r = g ! r)"
  using assms(1,3)
proof (induction rs arbitrary: g row)
  case Nil
  then show ?case by simp
next
  case (Cons r0 rs)
  have hd: "\<forall>i<length r0. r0 ! i \<noteq> 0 \<longrightarrow>
           0 \<le> x p + int (0 + i) \<and> x p + int (0 + i) < GRID_WIDTH \<and>
           y p + int row < GRID_HEIGHT"
    using Cons.prems(2) [rule_format, of 0] by simp
  from lock_cols_wf [OF Cons.prems(1) c hd] obtain g1 where
    g1: "lock_cols g p row r0 0 = Some g1" "wf_grid g1"
    "\<forall>r. int r \<noteq> y p + int row \<longrightarrow> g1 ! r = g ! r"
    by blast
  have tl: "\<forall>r<length rs. \<forall>i<length (rs ! r). rs ! r ! i \<noteq> 0 \<longrightarrow>
           0 \<le> x p + int i \<and> x p + int i < GRID_WIDTH \<and>
           y p + int (Suc row + r) < GRID_HEIGHT"
  proof (intro allI impI)
    fix r i assume "r < length rs" "i < length (rs ! r)" "rs ! r ! i \<noteq> 0"
    then show "0 \<le> x p + int i \<and> x p + int i < GRID_WIDTH \<and>
           y p + int (Suc row + r) < GRID_HEIGHT"
      using Cons.prems(2) [rule_format, of "Suc r" i] by simp
  qed
  from Cons.IH [OF g1(2) tl] obtain g' where
    g': "lock_rows g1 p rs (Suc row) = Some g'" "wf_grid g'"
    "\<forall>r. \<not> (y p + int (Suc row) \<le> int r \<and> int r < y p + int (Suc row) + int (length rs)) \<longrightarrow>
         g' ! r = g1 ! r"
    by blast
  have "lock_rows g p (r0 # rs) row = Some g'" using g1(1) g'(1) by simp
  moreover have "\<forall>r. \<not> (y p + int row \<le> int r \<and>
                      int r < y p + int row + int (length (r0 # rs))) \<longrightarrow> g' ! r = g ! r"
  proof (intro allI impI)
    fix r assume a: "\<not> (y p + int row \<le> int r \<and>
                      int r < y p + int row + int (length (r0 # rs)))"
    then have "g' ! r = g1 ! r" using g'(3) by auto
    moreover have "g1 ! r = g ! r" using g1(3) a by auto
    ultimately show "g' ! r = g ! r" by simp
  qed
  ultimately show ?case using g'(2) by blast
qed

text \<open>At most as many rows become full as the window of changed rows is high.\<close>

lemma full_rows_window:
  assumes len: "length g' = length g"
    and nofull: "list_all (\<lambda>r. \<not> row_full r) g"
    and same: "\<forall>r. \<not> (lo \<le> int r \<and> int r < lo + int h) \<longrightarrow> g' ! r = g ! r"
  shows "length (filter row_full g') \<le> h"
proof -
  have "{i. i < length g' \<and> row_full (g' ! i)} \<subseteq> (\<lambda>k. nat (lo + int k)) ` {..<h}"
  proof
    fix i assume "i \<in> {i. i < length g' \<and> row_full (g' ! i)}"
    then have i: "i < length g" "row_full (g' ! i)" using len by simp_all
    then have "\<not> row_full (g ! i)" using nofull by (simp add: list_all_length)
    with i same have w: "lo \<le> int i \<and> int i < lo + int h" by metis
    then have "nat (int i - lo) < h" "i = nat (lo + int (nat (int i - lo)))" by auto
    then show "i \<in> (\<lambda>k. nat (lo + int k)) ` {..<h}" by blast
  qed
  then have "card {i. i < length g' \<and> row_full (g' ! i)} \<le> card ((\<lambda>k. nat (lo + int k)) ` {..<h})"
    by (intro card_mono) auto
  also have "\<dots> \<le> card {..<h}" by (rule card_image_le) simp
  finally show ?thesis by (simp add: length_filter_conv_card)
qed





subsection \<open>The commands keep the invariant\<close>

lemma advances_refl: "engine_inv s \<Longrightarrow> advances s s"
  by (simp add: advances_def)

lemma advances_trans: "advances s t \<Longrightarrow> advances t u \<Longrightarrow> advances s u"
  by (auto simp: advances_def)

lemma cleared_grid_wf:
  assumes "wf_grid g"
  shows "wf_grid (replicate (length (filter row_full g)) emptyRow @ filter (\<lambda>r. \<not> row_full r) g)"
    and "list_all (\<lambda>r. \<not> row_full r)
           (replicate (length (filter row_full g)) emptyRow @ filter (\<lambda>r. \<not> row_full r) g)"
proof -
  have len: "length (filter row_full g) + length (filter (\<lambda>r. \<not> row_full r) g) = length g"
    by (rule sum_length_filter_compl)
  have e: "length emptyRow = nat GRID_WIDTH \<and> list_all (\<lambda>c. c = Zero \<or> truthy c) emptyRow"
    by (simp add: emptyRow_def list_all_iff)
  show "wf_grid (replicate (length (filter row_full g)) emptyRow @ filter (\<lambda>r. \<not> row_full r) g)"
    using assms len e by (auto simp: wf_grid_def list_all_iff)
  show "list_all (\<lambda>r. \<not> row_full r)
           (replicate (length (filter row_full g)) emptyRow @ filter (\<lambda>r. \<not> row_full r) g)"
    using emptyRow_not_full by (auto simp: list_all_iff)
qed

lemma basePoints_cases:
  assumes "0 < n" "n \<le> 4"
  shows "\<exists>b. basePoints n = Some b \<and> 0 \<le> b"
proof -
  from assms have "n = 1 \<or> n = 2 \<or> n = 3 \<or> n = 4" by auto
  then show ?thesis by (auto simp: basePoints_def)
qed

lemma clearLines_advances:
  assumes wf: "wf_grid (grid s)" and n4: "length (filter row_full (grid s)) \<le> 4"
    and d: "draws_ok s" and sc: "0 \<le> score s" "0 \<le> energy s" "1 \<le> level s"
  shows "\<exists>s'. clearLines s = Some s' \<and> wf_grid (grid s') \<and>
              list_all (\<lambda>r. \<not> row_full r) (grid s') \<and>
              currentPiece s' = currentPiece s \<and> draws_ok s' \<and>
              score s \<le> score s' \<and> energy s \<le> energy s' \<and> 0 \<le> score s' \<and> 1 \<le> level s' \<and>
              (treasureUnlocked s \<longrightarrow> treasureUnlocked s' \<and> treasureCode s' = treasureCode s)"
proof -
  have l: "length (grid s) = nat GRID_HEIGHT" using wf by (simp add: wf_grid_def)
  note g = cleared_grid_wf [OF wf]
  show ?thesis
  proof (cases "length (filter row_full (grid s)) = 0")
    case True
    then show ?thesis using g d sc
      by (simp add: clearLines_eq [OF l] draws_ok_def)
  next
    case False
    then have pos: "0 < length (filter row_full (grid s))" by simp
    from basePoints_cases [OF pos n4] obtain b where
      b: "basePoints (length (filter row_full (grid s))) = Some b" "0 \<le> b" by blast
    have p: "0 \<le> b * level s" using b sc by simp
    then have q: "0 \<le> (score s + b * level s) div 1000" using sc
      by (simp add: pos_imp_zdiv_nonneg_iff)
    show ?thesis using g d sc pos b p q
      by (simp add: clearLines_eq [OF l] Let_def unlockTreasure_eq draws_ok_def)
  qed
qed

lemma lockPiece_advances:
  assumes inv: "engine_inv s"
  shows "\<exists>s'. lockPiece s = Some s' \<and> advances s s'"
proof (cases "currentPiece s")
  case None
  then show ?thesis using inv by (simp add: lockPiece_def advances_refl)
next
  case (Some p)
  have wf: "wf_grid (grid s)" and nofull: "list_all (\<lambda>r. \<not> row_full r) (grid s)"
    and d: "draws_ok s" and sc: "0 \<le> score s" "0 \<le> energy s" "1 \<le> level s"
    and wp: "wf_piece p"
    using inv Some by (simp_all add: engine_inv_def)
  have c: "color p \<noteq> []" and ib: "in_bounds p" and ori: "shape p \<in> set orientations"
    using wp by (simp_all add: wf_piece_def)
  have cells: "\<forall>r<length (shape p). \<forall>i<length (shape p ! r). shape p ! r ! i \<noteq> 0 \<longrightarrow>
           0 \<le> x p + int i \<and> x p + int i < GRID_WIDTH \<and>
           y p + int (0 + r) < GRID_HEIGHT"
    using ib by (simp add: in_bounds_def)
  from lock_rows_wf [OF wf c cells] obtain g' where
    g': "lock_rows (grid s) p (shape p) 0 = Some g'" "wf_grid g'"
    "\<forall>r. \<not> (y p + int 0 \<le> int r \<and> int r < y p + int 0 + int (length (shape p))) \<longrightarrow>
         g' ! r = grid s ! r"
    by blast
  have len: "length g' = length (grid s)" using wf g'(2) by (simp add: wf_grid_def)
  have "length (filter row_full g') \<le> length (shape p)"
    using full_rows_window [OF len nofull, of "y p" "length (shape p)"] g'(3) by simp
  then have n4: "length (filter row_full g') \<le> 4"
    using orientation_props(2) [OF ori] by simp
  let ?s0 = "s\<lparr>grid := g'\<rparr>"
  have "\<exists>s1. clearLines ?s0 = Some s1 \<and> wf_grid (grid s1) \<and>
              list_all (\<lambda>r. \<not> row_full r) (grid s1) \<and>
              currentPiece s1 = currentPiece ?s0 \<and> draws_ok s1 \<and>
              score ?s0 \<le> score s1 \<and> energy ?s0 \<le> energy s1 \<and> 0 \<le> score s1 \<and> 1 \<le> level s1 \<and>
              (treasureUnlocked ?s0 \<longrightarrow> treasureUnlocked s1 \<and> treasureCode s1 = treasureCode ?s0)"
    using g'(2) n4 d sc by (intro clearLines_advances) (simp_all add: draws_ok_def)
  then obtain s1 where s1: "clearLines ?s0 = Some s1" "wf_grid (grid s1)"
    "list_all (\<lambda>r. \<not> row_full r) (grid s1)" "draws_ok s1"
    "score s \<le> score s1" "energy s \<le> energy s1" "0 \<le> score s1" "1 \<le> level s1"
    "treasureUnlocked s \<longrightarrow> treasureUnlocked s1 \<and> treasureCode s1 = treasureCode s"
    by auto
  from spawnPiece_char [OF s1(2) s1(4)] obtain q b where
    q: "wf_piece q" "spawnPiece s1 =
             Some ((if b then gameOver else id)
                     (s1\<lparr>randCalls := Suc (randCalls s1), currentPiece := Some q\<rparr>))"
    by blast
  let ?s2 = "(if b then gameOver else id) (s1\<lparr>randCalls := Suc (randCalls s1), currentPiece := Some q\<rparr>)"
  have lp: "lockPiece s = Some ?s2"
    using Some g'(1) s1(1) q(2) by (simp add: lockPiece_def)
  have "advances s ?s2"
    using s1 q(1) sc
    by (simp add: advances_def engine_inv_def gameOver_def draws_ok_def)
  with lp show ?thesis by blast
qed

lemma movePiece_advances:
  assumes inv: "engine_inv s"
  shows "\<exists>r s'. movePiece s dx dy = Some (r, s') \<and> advances s s'"
proof (cases "currentPiece s")
  case None
  then show ?thesis using inv by (simp add: movePiece_def advances_refl)
next
  case (Some p)
  have wf: "wf_grid (grid s)" and wp: "wf_piece p"
    using inv Some by (simp_all add: engine_inv_def)
  obtain b where b: "checkCollision (grid s) (x p + dx) (y p + dy) (shape p) = Some b"
    using checkCollision_wf [OF wf] by blast
  show ?thesis
  proof (cases b)
    case True
    show ?thesis
    proof (cases "dy > 0")
      case True
      from lockPiece_advances [OF inv] obtain s' where "lockPiece s = Some s'" "advances s s'"
        by blast
      then show ?thesis using Some b \<open>b\<close> True by (simp add: movePiece_def)
    next
      case False
      then show ?thesis using Some b \<open>b\<close> inv by (simp add: movePiece_def advances_refl)
    qed
  next
    case False
    let ?q = "p\<lparr>x := x p + dx, y := y p + dy\<rparr>"
    have "in_bounds ?q" using free_in_bounds [OF wf, of ?q] b False by simp
    then have wq: "wf_piece ?q" using wp by (simp add: wf_piece_def)
    show ?thesis using Some b False inv wq
      by (simp add: movePiece_def Let_def advances_def engine_inv_def draws_ok_def)
  qed
qed

lemma rotatePiece_advances:
  assumes inv: "engine_inv s"
  shows "\<exists>s'. rotatePiece s = Some s' \<and> advances s s'"
proof (cases "currentPiece s")
  case None
  then show ?thesis using inv by (simp add: rotatePiece_def advances_refl)
next
  case (Some p)
  have wf: "wf_grid (grid s)" and wp: "wf_piece p"
    using inv Some by (simp_all add: engine_inv_def)
  then have ori: "shape p \<in> set orientations" by (simp add: wf_piece_def)
  from orientation_props(4) [OF ori] obtain rot where
    rot: "rotated (shape p) = Some rot" "rot \<in> set orientations" by blast
  obtain b where b: "checkCollision (grid s) (x p) (y p) rot = Some b"
    using checkCollision_wf [OF wf] by blast
  show ?thesis
  proof (cases b)
    case True
    then show ?thesis using Some rot b inv by (simp add: rotatePiece_def advances_refl)
  next
    case False
    let ?q = "p\<lparr>shape := rot\<rparr>"
    have "in_bounds ?q" using free_in_bounds [OF wf, of ?q] b False by simp
    then have wq: "wf_piece ?q" using wp rot by (simp add: wf_piece_def)
    show ?thesis using Some rot b False inv wq
      by (simp add: rotatePiece_def advances_def engine_inv_def draws_ok_def)
  qed
qed

subsection \<open>Hard drop and command sequences\<close>

lemma piece_above_floor:
  assumes "wf_piece p"
  shows "y p < GRID_HEIGHT"
proof -
  from assms have "shape p \<in> set orientations" "in_bounds p" by (simp_all add: wf_piece_def)
  from orientation_props(3) [OF this(1)] obtain row col where
    "row < length (shape p)" "col < length (shape p ! row)" "shape p ! row ! col \<noteq> 0" by blast
  with \<open>in_bounds p\<close> have "y p + int row < GRID_HEIGHT" by (simp add: in_bounds_def)
  then show ?thesis by simp
qed

lemma movePiece_down_cases:
  assumes inv: "engine_inv s" and cp: "currentPiece s = Some p"
  shows "(\<exists>u. movePiece s 0 1 = Some (Ret False, u) \<and> advances s u) \<or>
         (movePiece s 0 1 =
            Some (Ret True, s\<lparr>currentPiece := Some (p\<lparr>y := y p + 1\<rparr>),
                              score := score s + 1, energy := energy s + 1\<rparr>))"
proof -
  have wf: "wf_grid (grid s)" using inv by (simp add: engine_inv_def)
  obtain b where b: "checkCollision (grid s) (x p + 0) (y p + 1) (shape p) = Some b"
    using checkCollision_wf [OF wf] by blast
  show ?thesis
  proof (cases b)
    case True
    from lockPiece_advances [OF inv] obtain u where "lockPiece s = Some u" "advances s u"
      by blast
    then show ?thesis using cp b True by (simp add: movePiece_def)
  next
    case False
    then show ?thesis using cp b by (simp add: movePiece_def Let_def)
  qed
qed

lemma hardDrop_loop_char:
  assumes "engine_inv s" "currentPiece s = Some p"
  shows "\<exists>n t u. moves_down n s = Some t \<and> movePiece t 0 1 = Some (Ret False, u) \<and>
           score t = score s + int n \<and> energy t = energy s + int n \<and>
           hardDrop_loop s d = Some (u, d + int n) \<and> advances s u"
  using assms
proof (induction "nat (GRID_HEIGHT - y p)" arbitrary: s p d rule: less_induct)
  case less
  note inv = less.prems(1) and cp = less.prems(2)
  from movePiece_down_cases [OF inv cp] show ?case
  proof
    assume "\<exists>u. movePiece s 0 1 = Some (Ret False, u) \<and> advances s u"
    then obtain u where u: "movePiece s 0 1 = Some (Ret False, u)" "advances s u" by blast
    have "hardDrop_loop s d = Some (u, d)"
      by (subst hardDrop_loop.simps) (simp add: u)
    with u have "moves_down 0 s = Some s \<and> movePiece s 0 1 = Some (Ret False, u) \<and>
           score s = score s + int 0 \<and> energy s = energy s + int 0 \<and>
           hardDrop_loop s d = Some (u, d + int 0) \<and> advances s u" by simp
    then show ?thesis by blast
  next
    let ?q = "p\<lparr>y := y p + 1\<rparr>"
    let ?s1 = "s\<lparr>currentPiece := Some ?q, score := score s + 1, energy := energy s + 1\<rparr>"
    assume m: "movePiece s 0 1 = Some (Ret True, ?s1)"
    from movePiece_advances [OF inv, of 0 1] m have a1: "advances s ?s1" by simp
    then have inv1: "engine_inv ?s1" by (simp add: advances_def)
    have cp1: "currentPiece ?s1 = Some ?q" by simp
    have "wf_piece p" using inv cp by (simp add: engine_inv_def)
    then have "y p < GRID_HEIGHT" by (rule piece_above_floor)
    then have lt: "nat (GRID_HEIGHT - y ?q) < nat (GRID_HEIGHT - y p)" by simp
    from less.hyps [OF lt inv1 cp1, of "d + 1"] obtain n t u where
      r: "moves_down n ?s1 = Some t" "movePiece t 0 1 = Some (Ret False, u)"
         "score t = score ?s1 + int n" "energy t = energy ?s1 + int n"
         "hardDrop_loop ?s1 (d + 1) = Some (u, d + 1 + int n)" "advances ?s1 u"
      by blast
    have h: "hardDrop_loop s d = Some (u, d + int (Suc n))"
      by (subst hardDrop_loop.simps) (simp add: m r(5))
    have "moves_down (Suc n) s = Some t" using m r(1) by simp
    moreover have "score t = score s + int (Suc n)" "energy t = energy s + int (Suc n)"
      using r(3,4) by simp_all
    moreover have "advances s u" using a1 r(6) by (rule advances_trans)
    ultimately show ?thesis using r(2) h by blast
  qed
qed


lemma hardDrop_advances:
  assumes inv: "engine_inv s"
  shows "\<exists>s'. hardDrop s = Some s' \<and> advances s s'"
proof (cases "currentPiece s")
  case None
  then show ?thesis using inv by (simp add: hardDrop_def advances_refl)
next
  case (Some p)
  from hardDrop_loop_char [OF inv Some, of 0] obtain n u where
    r: "hardDrop_loop s 0 = Some (u, 0 + int n)" "advances s u"
    by blast
  have "hardDrop s = Some (u\<lparr>score := score u + int n * 2, energy := energy u + int n * 2\<rparr>)"
    using Some r(1) by (simp add: hardDrop_def)
  moreover have "advances s (u\<lparr>score := score u + int n * 2, energy := energy u + int n * 2\<rparr>)"
    using r(2) by (simp add: advances_def engine_inv_def draws_ok_def)
  ultimately show ?thesis by blast
qed

lemma exec_advances:
  assumes "engine_inv s"
  shows "\<exists>s'. exec c s = Some s' \<and> advances s s'"
proof (cases c)
  case (Move dx dy)
  with movePiece_advances [OF assms, of dx dy] show ?thesis by auto
next
  case Rotate
  with rotatePiece_advances [OF assms] show ?thesis by simp
next
  case HardDrop
  with hardDrop_advances [OF assms] show ?thesis by simp
next
  case Lock
  with lockPiece_advances [OF assms] show ?thesis by simp
qed

lemma run_advances:
  assumes "engine_inv s"
  shows "\<exists>s'. run cs s = Some s' \<and> advances s s'"
  using assms
proof (induction cs arbitrary: s)
  case Nil
  then show ?case by (simp add: advances_refl)
next
  case (Cons c cs)
  from exec_advances [OF Cons.prems, of c] obtain s1 where
    s1: "exec c s = Some s1" "advances s s1" by blast
  then have "engine_inv s1" by (simp add: advances_def)
  from Cons.IH [OF this] obtain s' where s': "run cs s1 = Some s'" "advances s1 s'" by blast
  have "run (c # cs) s = Some s'" using s1(1) s'(1) by simp
  moreover have "advances s s'" using s1(2) s'(2) by (rule advances_trans)
  ultimately show ?case by blast
qed

text \<open>
  C7. From any state of a running session, every sequence of move, rotate, hardDrop and
  lock commands runs to the end, and score and energy have not gone down; a score or an
  energy that is positive stays positive, so they come back to \<open>0\<close> only by
  \<^verbatim>\<open>resetGame\<close>, which sets both to \<open>0\<close>.
\<close>

theorem score_energy_monotone:
  assumes "engine_inv s"
  shows "\<exists>s'. run cs s = Some s' \<and> score s \<le> score s' \<and> energy s \<le> energy s' \<and>
              (0 < score s \<longrightarrow> 0 < score s') \<and> (0 < energy s \<longrightarrow> 0 < energy s') \<and>
              score (resetGame s') = 0 \<and> energy (resetGame s') = 0"
proof -
  from run_advances [OF assms, of cs] obtain s' where
    "run cs s = Some s'" "advances s s'" by blast
  then show ?thesis
    by (auto simp: advances_def resetGame_def resetGrid_def)
qed

subsection \<open>The invariant from the start of a game\<close>

lemma init_state_inv:
  assumes "\<forall>i. 0 \<le> rnd i \<and> rnd i < 1"
  shows "engine_inv (init_state rnd)"
proof -
  have g: "grid (init_state rnd) = replicate 20 (replicate 10 Zero)"
    by (simp add: init_state_def resetGrid_def emptyRow_def GRID_HEIGHT_def GRID_WIDTH_def)
  have nf: "list_all (\<lambda>r. \<not> row_full r) (replicate 20 (replicate 10 Zero))"
    by (simp add: list_all_iff row_full_def)
  show ?thesis
    unfolding engine_inv_def g
    using wf_empty_grid nf assms
    by (simp add: init_state_def resetGrid_def draws_ok_def)
qed

lemma resetGame_inv:
  assumes "draws_ok s"
  shows "engine_inv (resetGame s)"
proof -
  have g: "grid (resetGame s) = replicate 20 (replicate 10 Zero)"
    by (simp add: resetGame_def resetGrid_def emptyRow_def GRID_HEIGHT_def GRID_WIDTH_def)
  have nf: "list_all (\<lambda>r. \<not> row_full r) (replicate 20 (replicate 10 Zero))"
    by (simp add: list_all_iff row_full_def)
  show ?thesis
    unfolding engine_inv_def g
    using wf_empty_grid nf assms
    by (simp add: resetGame_def resetGrid_def draws_ok_def)
qed

lemma startGame_inv:
  assumes "engine_inv s"
  shows "\<exists>s'. startGame s = Some s' \<and> engine_inv s'"
proof -
  define s1 where "s1 = (if gameStarted s \<and> \<not> isPaused s then resetGame s else s)"
  define s2 where "s2 = s1\<lparr>gameStarted := True, isPaused := False\<rparr>"
  have "draws_ok s" using assms by (simp add: engine_inv_def)
  then have "engine_inv s1" using assms resetGame_inv by (simp add: s1_def)
  then have i2: "engine_inv s2" by (simp add: s2_def engine_inv_def draws_ok_def)
  have "\<exists>s3. (if currentPiece s2 = None then spawnPiece s2 else Some s2) = Some s3 \<and>
              engine_inv s3"
  proof (cases "currentPiece s2")
    case None
    from i2 have "wf_grid (grid s2)" "draws_ok s2" by (simp_all add: engine_inv_def)
    from spawnPiece_char [OF this] obtain p b where
      p: "wf_piece p" "spawnPiece s2 =
             Some ((if b then gameOver else id)
                     (s2\<lparr>randCalls := Suc (randCalls s2), currentPiece := Some p\<rparr>))"
      by blast
    have "engine_inv ((if b then gameOver else id)
                     (s2\<lparr>randCalls := Suc (randCalls s2), currentPiece := Some p\<rparr>))"
      using i2 p(1) by (simp add: engine_inv_def gameOver_def draws_ok_def)
    with p(2) None show ?thesis by simp
  next
    case (Some q)
    with i2 show ?thesis by simp
  qed
  then obtain s3 where s3: "(if currentPiece s2 = None then spawnPiece s2 else Some s2) = Some s3"
    "engine_inv s3" by blast
  have "startGame s = Some (if \<not> gameLoop s3 then s3\<lparr>gameLoop := True\<rparr> else s3)"
    using s3(1) unfolding startGame_def s1_def [symmetric] Let_def s2_def [symmetric] by simp
  moreover have "engine_inv (if \<not> gameLoop s3 then s3\<lparr>gameLoop := True\<rparr> else s3)"
    using s3(2) by (simp add: engine_inv_def draws_ok_def)
  ultimately show ?thesis by blast
qed

lemma startGame_init: "startGame (init_state (all_draws 0)) = Some started_state"
  by (simp add: startGame_def started_state_def init_state_def resetGrid_def spawnPiece_def
        Math_random_def all_draws_def random_index_def SHAPES_def COLORS_def Let_def
        GRID_WIDTH_def GRID_HEIGHT_def emptyRow_def checkCollision_def collision_cell_def
        grid_truthy_def)

lemma started_state_inv: "engine_inv started_state"
proof -
  have "engine_inv (init_state (all_draws 0))"
    by (rule init_state_inv) (simp add: all_draws_def)
  from startGame_inv [OF this] show ?thesis by (simp add: startGame_init)
qed

text \<open>Moving the piece of a state to a free place keeps the invariant.\<close>

lemma place_piece_inv:
  assumes "engine_inv s" "currentPiece s = Some p"
    and "checkCollision (grid s) x0 y0 (shape p) = Some False"
  shows "engine_inv (s\<lparr>currentPiece := Some (p\<lparr>x := x0, y := y0\<rparr>)\<rparr>)"
proof -
  have wf: "wf_grid (grid s)" and wp: "wf_piece p"
    using assms(1,2) by (simp_all add: engine_inv_def)
  have "in_bounds (p\<lparr>x := x0, y := y0\<rparr>)"
    using free_in_bounds [OF wf, of "p\<lparr>x := x0, y := y0\<rparr>"] assms(3) by simp
  then show ?thesis using assms(1) wp
    by (simp add: engine_inv_def wf_piece_def draws_ok_def)
qed


lemma on_floor_state_inv: "engine_inv on_floor_state"
proof -
  have c: "currentPiece started_state =
             Some \<lparr>shape = [[1, 1, 1, 1]], color = ''#1FB8CD'', x = 4, y = 0\<rparr>"
    by (simp add: started_state_def)
  have f: "checkCollision (grid started_state) 4 19
             (shape \<lparr>shape = [[1, 1, 1, 1]], color = ''#1FB8CD'', x = 4, y = 0\<rparr>) = Some False"
    by code_simp
  from place_piece_inv [OF started_state_inv c f]
  have "engine_inv (started_state
       \<lparr>currentPiece := Some \<lparr>shape = [[1, 1, 1, 1]], color = ''#1FB8CD'', x = 4, y = 19\<rparr>\<rparr>)"
    by simp
  then show ?thesis
    by (simp add: on_floor_state_def engine_inv_def draws_ok_def)
qed


theorem score_energy_monotone_witness:
  "engine_inv started_state \<and>
   (\<exists>s'. run [Move (- 1) 0, Rotate, Move 0 1, HardDrop, Lock] started_state = Some s' \<and>
      score started_state \<le> score s' \<and> energy started_state \<le> energy s' \<and>
      score (resetGame s') = 0 \<and> energy (resetGame s') = 0) \<and>
   score started_state = 0 \<and>
   map_option score (run [Move (- 1) 0, Rotate, Move 0 1, HardDrop, Lock] started_state) =
     Some 46 \<and>
   engine_inv on_floor_state \<and> 0 < score on_floor_state \<and> 0 < energy on_floor_state \<and>
   (\<exists>s'. run [Lock, Rotate] on_floor_state = Some s' \<and> 0 < score s' \<and> 0 < energy s')"
proof -
  have v: "score started_state = 0"
    "map_option score (run [Move (- 1) 0, Rotate, Move 0 1, HardDrop, Lock] started_state) =
       Some 46"
    by code_simp+
  have p: "0 < score on_floor_state" "0 < energy on_floor_state"
    by (simp_all add: on_floor_state_def)
  from score_energy_monotone [OF started_state_inv,
      of "[Move (- 1) 0, Rotate, Move 0 1, HardDrop, Lock]"]
  have a: "\<exists>s'. run [Move (- 1) 0, Rotate, Move 0 1, HardDrop, Lock] started_state = Some s' \<and>
      score started_state \<le> score s' \<and> energy started_state \<le> energy s' \<and>
      score (resetGame s') = 0 \<and> energy (resetGame s') = 0"
    by blast
  from score_energy_monotone [OF on_floor_state_inv, of "[Lock, Rotate]"] p
  have b: "\<exists>s'. run [Lock, Rotate] on_floor_state = Some s' \<and> 0 < score s' \<and> 0 < energy s'"
    by blast
  from started_state_inv on_floor_state_inv a b v p show ?thesis by blast
qed

subsection \<open>The outcomes of a move\<close>





lemma movePiece_free:
  assumes "currentPiece s = Some p"
    and "checkCollision (grid s) (x p + dx) (y p + dy) (shape p) = Some False"
  shows "movePiece s dx dy =
           Some (Ret True,
                 s\<lparr>currentPiece := Some (p\<lparr>x := x p + dx, y := y p + dy\<rparr>),
                   score := score s + (if dy > 0 then 1 else 0),
                   energy := energy s + (if dy > 0 then 1 else 0)\<rparr>)"
  using assms by (simp add: movePiece_def Let_def)




subsection \<open>Commands after game over\<close>

text \<open>
  The frame callback and the keyboard listener return at once when the game is not
  started, so neither changes anything after \<^verbatim>\<open>gameOver\<close>.
\<close>

lemma stopped_inputs_ignored:
  assumes "\<not> gameStarted s"
  shows "update s timestamp = Some s" "keydown s key = Some s"
  using assms by (simp_all add: update_def keydown_def)

text \<open>
  C2 does not hold of the code. \<^verbatim>\<open>movePiece\<close>, \<^verbatim>\<open>rotatePiece\<close> and \<^verbatim>\<open>hardDrop\<close> do not
  look at \<^verbatim>\<open>gameStarted\<close>, and the click listeners of the control buttons call them
  without the test the keyboard listener makes. In the game \<open>top_out_play\<close> ten \<^verbatim>\<open>O\<close>
  pieces are stacked to the top and the \<^verbatim>\<open>I\<close> piece spawned next collides, so
  \<^verbatim>\<open>gameOver\<close> runs. The space and arrow keys then leave the grid as it is, but a click
  on the down button locks the \<^verbatim>\<open>I\<close> piece into row \<open>0\<close> of the grid.
\<close>

theorem game_over_not_terminal:
  "map_option gameStarted top_out_play = Some False \<and>
   map_option currentPiece top_out_play =
     Some (Some \<lparr>shape = [[1, 1, 1, 1]], color = ''#1FB8CD'', x = 4, y = 0\<rparr>) \<and>
   map_option (hd \<circ> grid) top_out_play =
     Some [Zero, Zero, Zero, Zero, Color ''#FFC185'', Color ''#FFC185'', Zero, Zero, Zero, Zero] \<and>
   map_option (hd \<circ> grid) (Option.bind top_out_play (keys ['' '', ''ArrowDown''])) =
     Some [Zero, Zero, Zero, Zero, Color ''#FFC185'', Color ''#FFC185'', Zero, Zero, Zero, Zero] \<and>
   map_option (hd \<circ> grid) (Option.bind top_out_play downBtn_click) =
     Some [Zero, Zero, Zero, Zero, Color ''#1FB8CD'', Color ''#1FB8CD'', Color ''#1FB8CD'',
           Color ''#1FB8CD'', Zero, Zero]"
  by code_simp

subsection \<open>The treasure\<close>

lemma movePiece_success_state:
  assumes "movePiece s dx dy = Some (Ret True, t)"
  shows "treasureUnlocked t = treasureUnlocked s \<and> treasureCode t = treasureCode s \<and>
         grid t = grid s \<and> energy s \<le> energy t"
  using assms
  by (auto simp: movePiece_def Let_def split: option.splits bool.splits if_splits prod.splits)

lemma chars_alphabet: "chars = ''ABCDEFGHIJKLMNOPQRSTUVWXYZ0123456789''"
  by (simp add: chars_def)

lemma unlockTreasure_code:
  assumes "draws_ok s"
  shows "treasureUnlocked (unlockTreasure s) \<and> length (treasureCode (unlockTreasure s)) = 8 \<and>
         set (treasureCode (unlockTreasure s)) \<subseteq> set chars"
proof -
  have "\<forall>i. 0 \<le> rand (s\<lparr>treasureUnlocked := True\<rparr>) i \<and> rand (s\<lparr>treasureUnlocked := True\<rparr>) i < 1"
    using assms by (simp add: draws_ok_def)
  from generateTreasureCode_loop_code [OF this, of 8 "[]"] show ?thesis
    by (simp add: unlockTreasure_eq generateTreasureCode_def)
qed

lemma clearLines_treasure:
  assumes wf: "wf_grid (grid s)" and d: "draws_ok s"
    and n4: "length (filter row_full (grid s)) \<le> 4"
  shows "\<exists>s'. clearLines s = Some s' \<and>
           (0 < length (filter row_full (grid s)) \<and> \<not> treasureUnlocked s \<and>
            ENERGY_THRESHOLD \<le> energy s' \<longrightarrow>
              treasureUnlocked s' \<and> length (treasureCode s') = 8 \<and>
              set (treasureCode s') \<subseteq> set chars) \<and>
           (treasureUnlocked s \<longrightarrow> treasureUnlocked s' \<and> treasureCode s' = treasureCode s) \<and>
           (length (filter row_full (grid s)) = 0 \<longrightarrow>
              treasureUnlocked s' = treasureUnlocked s \<and> treasureCode s' = treasureCode s)"
proof -
  have l: "length (grid s) = nat GRID_HEIGHT" using wf by (simp add: wf_grid_def)
  show ?thesis
  proof (cases "length (filter row_full (grid s)) = 0")
    case True
    then show ?thesis by (simp add: clearLines_eq [OF l])
  next
    case False
    then have pos: "0 < length (filter row_full (grid s))" by simp
    from basePoints_cases [OF pos n4] obtain b where
      b: "basePoints (length (filter row_full (grid s))) = Some b" by blast
    define s4 where "s4 =
      s\<lparr>grid := replicate (length (filter row_full (grid s))) emptyRow @
                 filter (\<lambda>r. \<not> row_full r) (grid s),
        score := score s + b * level s, energy := energy s + b * level s,
        level := (score s + b * level s) div 1000 + 1,
        dropInterval := max 100 (1000 - ((score s + b * level s) div 1000 + 1 - 1) * 100)\<rparr>"
    have f: "treasureUnlocked s4 = treasureUnlocked s" "treasureCode s4 = treasureCode s"
      "draws_ok s4"
      using d by (simp_all add: s4_def draws_ok_def)
    have cl: "clearLines s =
                (if energy s4 \<ge> ENERGY_THRESHOLD \<and> \<not> treasureUnlocked s
                 then Some (unlockTreasure s4) else Some s4)"
      using pos b by (simp add: clearLines_eq [OF l] Let_def s4_def)
    show ?thesis
    proof (cases "energy s4 \<ge> ENERGY_THRESHOLD \<and> \<not> treasureUnlocked s")
      case True
      with cl have "clearLines s = Some (unlockTreasure s4)" by simp
      with unlockTreasure_code [OF f(3)] True pos show ?thesis by simp
    next
      case False
      with cl have "clearLines s = Some s4" by simp
      with False f pos show ?thesis by auto
    qed
  qed
qed

text \<open>
  C8. When a call of \<^verbatim>\<open>clearLines\<close> removes at least one row, the treasure is not yet
  unlocked and the energy after the call is at least \<^verbatim>\<open>ENERGY_THRESHOLD\<close>, the call sets
  \<^verbatim>\<open>treasureUnlocked\<close> and shows a code of eight characters, all from \<open>A\<close>-\<open>Z\<close> and
  \<open>0\<close>-\<open>9\<close>. When the treasure is unlocked already, \<^verbatim>\<open>clearLines\<close>, and every sequence
  of commands of a running session, leaves it unlocked with the same code. Energy gained
  without a removed row triggers nothing: a call of \<^verbatim>\<open>clearLines\<close> that removes no row, a
  successful \<^verbatim>\<open>movePiece\<close>, and the bonus \<^verbatim>\<open>hardDrop\<close> adds after its loop all leave
  \<^verbatim>\<open>treasureUnlocked\<close> and the code as they were.
\<close>

theorem treasure_unlock_once:
  "(wf_grid (grid s) \<and> draws_ok s \<and> length (filter row_full (grid s)) \<le> 4 \<longrightarrow>
      (\<exists>s'. clearLines s = Some s' \<and>
         (0 < length (filter row_full (grid s)) \<and> \<not> treasureUnlocked s \<and>
          ENERGY_THRESHOLD \<le> energy s' \<longrightarrow>
            treasureUnlocked s' \<and> length (treasureCode s') = 8 \<and>
            set (treasureCode s') \<subseteq> set ''ABCDEFGHIJKLMNOPQRSTUVWXYZ0123456789'') \<and>
         (treasureUnlocked s \<longrightarrow> treasureUnlocked s' \<and> treasureCode s' = treasureCode s) \<and>
         (length (filter row_full (grid s)) = 0 \<longrightarrow>
            treasureUnlocked s' = treasureUnlocked s \<and> treasureCode s' = treasureCode s))) \<and>
   (engine_inv s \<and> treasureUnlocked s \<longrightarrow>
      (\<exists>s'. run cs s = Some s' \<and> treasureUnlocked s' \<and> treasureCode s' = treasureCode s)) \<and>
   (movePiece s dx dy = Some (Ret True, t) \<longrightarrow>
      treasureUnlocked t = treasureUnlocked s \<and> treasureCode t = treasureCode s) \<and>
   (currentPiece s \<noteq> None \<and> hardDrop_loop s 0 = Some (u, d) \<longrightarrow>
      (\<exists>s'. hardDrop s = Some s' \<and> energy s' = energy u + d * 2 \<and>
            treasureUnlocked s' = treasureUnlocked u \<and> treasureCode s' = treasureCode u))"
proof -
  have p1: "wf_grid (grid s) \<and> draws_ok s \<and> length (filter row_full (grid s)) \<le> 4 \<longrightarrow>
      (\<exists>s'. clearLines s = Some s' \<and>
         (0 < length (filter row_full (grid s)) \<and> \<not> treasureUnlocked s \<and>
          ENERGY_THRESHOLD \<le> energy s' \<longrightarrow>
            treasureUnlocked s' \<and> length (treasureCode s') = 8 \<and>
            set (treasureCode s') \<subseteq> set ''ABCDEFGHIJKLMNOPQRSTUVWXYZ0123456789'') \<and>
         (treasureUnlocked s \<longrightarrow> treasureUnlocked s' \<and> treasureCode s' = treasureCode s) \<and>
         (length (filter row_full (grid s)) = 0 \<longrightarrow>
            treasureUnlocked s' = treasureUnlocked s \<and> treasureCode s' = treasureCode s))"
    using clearLines_treasure [of s] unfolding chars_alphabet by blast
  have p2: "engine_inv s \<and> treasureUnlocked s \<longrightarrow>
      (\<exists>s'. run cs s = Some s' \<and> treasureUnlocked s' \<and> treasureCode s' = treasureCode s)"
    using run_advances [of s cs] by (auto simp: advances_def)
  have p3: "movePiece s dx dy = Some (Ret True, t) \<longrightarrow>
      treasureUnlocked t = treasureUnlocked s \<and> treasureCode t = treasureCode s"
    using movePiece_success_state [of s dx dy t] by simp
  have p4: "currentPiece s \<noteq> None \<and> hardDrop_loop s 0 = Some (u, d) \<longrightarrow>
      (\<exists>s'. hardDrop s = Some s' \<and> energy s' = energy u + d * 2 \<and>
            treasureUnlocked s' = treasureUnlocked u \<and> treasureCode s' = treasureCode u)"
    by (auto simp: hardDrop_def)
  show ?thesis by (rule conjI [OF p1 conjI [OF p2 conjI [OF p3 p4]]])
qed

lemma step_draws_ok: "0 \<le> step_draws i \<and> step_draws i < 1"
proof -
  have "2 * (i mod 36) + 1 < 72" by simp
  then have "(of_nat (2 * (i mod 36) + 1) :: rat) < of_nat 72" by (simp only: of_nat_less_iff)
  then show ?thesis by (simp add: step_draws_def)
qed

lemma almost_state_inv: "engine_inv almost_state"
  using started_state_inv by (simp add: almost_state_def engine_inv_def draws_ok_def)

lemma started_unlocked_state_inv: "engine_inv started_unlocked_state"
  using started_state_inv
  by (simp add: started_unlocked_state_def engine_inv_def draws_ok_def)

theorem treasure_unlock_once_witness:
  "wf_grid (grid near_unlock_state) \<and> draws_ok near_unlock_state \<and>
   length (filter row_full (grid near_unlock_state)) = 1 \<and>
   \<not> treasureUnlocked near_unlock_state \<and>
   map_option energy (clearLines near_unlock_state) = Some 5050 \<and>
   (\<exists>s'. clearLines near_unlock_state = Some s' \<and> treasureUnlocked s' \<and>
         length (treasureCode s') = 8 \<and>
         set (treasureCode s') \<subseteq> set ''ABCDEFGHIJKLMNOPQRSTUVWXYZ0123456789'') \<and>
   map_option treasureCode (clearLines near_unlock_state) = Some ''ABCDEFGH'' \<and>
   wf_grid (grid unlocked_state) \<and> draws_ok unlocked_state \<and>
   length (filter row_full (grid unlocked_state)) = 1 \<and> treasureUnlocked unlocked_state \<and>
   (\<exists>s'. clearLines unlocked_state = Some s' \<and> treasureUnlocked s' \<and>
         treasureCode s' = ''ZZZZ9999'') \<and>
   engine_inv started_unlocked_state \<and> treasureUnlocked started_unlocked_state \<and>
   (\<exists>s'. run [Move 0 1, HardDrop] started_unlocked_state = Some s' \<and> treasureUnlocked s' \<and>
         treasureCode s' = ''ZZZZ9999'') \<and>
   movePiece almost_state 0 1 =
     Some (Ret True,
           almost_state
             \<lparr>currentPiece := Some \<lparr>shape = [[1, 1, 1, 1]], color = ''#1FB8CD'', x = 4, y = 1\<rparr>,
              score := 1, energy := 5000\<rparr>) \<and>
   \<not> treasureUnlocked
       (almost_state
          \<lparr>currentPiece := Some \<lparr>shape = [[1, 1, 1, 1]], color = ''#1FB8CD'', x = 4, y = 1\<rparr>,
           score := 1, energy := 5000\<rparr>) \<and>
   currentPiece almost_state \<noteq> None \<and>
   (\<exists>u d. hardDrop_loop almost_state 0 = Some (u, d) \<and>
      (\<exists>s'. hardDrop almost_state = Some s' \<and> energy s' = energy u + d * 2 \<and>
            treasureUnlocked s' = treasureUnlocked u \<and> treasureCode s' = treasureCode u)) \<and>
   map_option energy (hardDrop almost_state) = Some 5056 \<and>
   map_option treasureUnlocked (hardDrop almost_state) = Some False"
proof -
  let ?I = "[[1, 1, 1, 1]] :: shape"
  let ?t = "almost_state
             \<lparr>currentPiece := Some \<lparr>shape = ?I, color = ''#1FB8CD'', x = 4, y = 1\<rparr>,
              score := 1, energy := 5000\<rparr>"
  have wn: "wf_grid (grid near_unlock_state)"
    unfolding near_unlock_state_def by code_simp
  have dn: "draws_ok near_unlock_state"
    using step_draws_ok by (simp add: draws_ok_def near_unlock_state_def init_state_def resetGrid_def)
  have ln: "length (filter row_full (grid near_unlock_state)) = 1"
    unfolding near_unlock_state_def by code_simp
  have un: "\<not> treasureUnlocked near_unlock_state"
    by (simp add: near_unlock_state_def init_state_def resetGrid_def)
  have en: "map_option energy (clearLines near_unlock_state) = Some 5050"
    and cn: "map_option treasureCode (clearLines near_unlock_state) = Some ''ABCDEFGH''"
    by code_simp+
  have a: "\<exists>s'. clearLines near_unlock_state = Some s' \<and> treasureUnlocked s' \<and>
         length (treasureCode s') = 8 \<and>
         set (treasureCode s') \<subseteq> set ''ABCDEFGHIJKLMNOPQRSTUVWXYZ0123456789''"
    using treasure_unlock_once [of near_unlock_state] wn dn ln un en
    by (auto simp: ENERGY_THRESHOLD_def)
  have wu: "wf_grid (grid unlocked_state)" "draws_ok unlocked_state"
    "length (filter row_full (grid unlocked_state)) = 1"
    using wn dn ln by (simp_all add: unlocked_state_def draws_ok_def)
  have uu: "treasureUnlocked unlocked_state" "treasureCode unlocked_state = ''ZZZZ9999''"
    by (simp_all add: unlocked_state_def)
  have b: "\<exists>s'. clearLines unlocked_state = Some s' \<and> treasureUnlocked s' \<and>
         treasureCode s' = ''ZZZZ9999''"
    using treasure_unlock_once [of unlocked_state] wu uu by auto
  have us: "treasureUnlocked started_unlocked_state"
    "treasureCode started_unlocked_state = ''ZZZZ9999''"
    by (simp_all add: started_unlocked_state_def)
  have c: "\<exists>s'. run [Move 0 1, HardDrop] started_unlocked_state = Some s' \<and>
         treasureUnlocked s' \<and> treasureCode s' = ''ZZZZ9999''"
    using treasure_unlock_once [of started_unlocked_state "[Move 0 1, HardDrop]"]
      started_unlocked_state_inv us by auto
  have cp: "currentPiece almost_state = Some \<lparr>shape = ?I, color = ''#1FB8CD'', x = 4, y = 0\<rparr>"
    by (simp add: almost_state_def started_state_def)
  have k: "checkCollision (grid almost_state) (4 + 0) (0 + 1) ?I = Some False" by code_simp
  have v: "score almost_state = 0" "energy almost_state = 4999" "\<not> treasureUnlocked almost_state"
    by (simp_all add: almost_state_def started_state_def init_state_def resetGrid_def)
  from movePiece_free [OF cp, of 0 1] k v
  have m: "movePiece almost_state 0 1 = Some (Ret True, ?t)" by auto
  from treasure_unlock_once [of almost_state _ 0 1 ?t] m v
  have d: "\<not> treasureUnlocked ?t" by blast
  have ne: "currentPiece almost_state \<noteq> None" using cp by simp
  from hardDrop_loop_char [OF almost_state_inv cp, of 0] obtain u n where
    h: "hardDrop_loop almost_state 0 = Some (u, 0 + int n)" by blast
  from treasure_unlock_once [of almost_state _ _ _ _ u "0 + int n"] ne h
  have e: "\<exists>u d. hardDrop_loop almost_state 0 = Some (u, d) \<and>
      (\<exists>s'. hardDrop almost_state = Some s' \<and> energy s' = energy u + d * 2 \<and>
            treasureUnlocked s' = treasureUnlocked u \<and> treasureCode s' = treasureCode u)"
    by blast
  have f: "map_option energy (hardDrop almost_state) = Some 5056"
    "map_option treasureUnlocked (hardDrop almost_state) = Some False"
    by code_simp+
  from wn dn ln un en a cn wu uu(1) b started_unlocked_state_inv us(1) c m d ne e f
  show ?thesis by blast
qed

end
